theory Spec2Isabelle
  imports Complex_Main "HOL-Library.Word" "HOL-Library.Sublist"
begin

section \<open>Strings of the host language\<close>

text \<open>
  The component \<^verbatim>\<open>AnalysisResult.tsx\<close> works on JavaScript strings, which are
  sequences of 16-bit code units. The em dash of the bullet markers is the single code
  unit \<open>0x2014\<close>. ASCII literals are written through \<open>str\<close>.
\<close>

type_synonym code_unit = "16 word"
type_synonym jsstring = "code_unit list"

definition str :: "string \<Rightarrow> jsstring" where
  "str s = map of_char s"

text \<open>
  \<^verbatim>\<open>String.prototype.trim\<close> and the regular-expression class \<^verbatim>\<open>\s\<close> use the same set:
  the WhiteSpace and LineTerminator code points of ECMAScript.
\<close>

definition isWhiteSpace :: "code_unit \<Rightarrow> bool" where
  "isWhiteSpace c = (c \<in> set [0x9, 0xA, 0xB, 0xC, 0xD, 0x20, 0xA0, 0x1680, 0x2000, 0x2001,
     0x2002, 0x2003, 0x2004, 0x2005, 0x2006, 0x2007, 0x2008, 0x2009, 0x200A, 0x2028, 0x2029,
     0x202F, 0x205F, 0x3000, 0xFEFF])"

definition isLineTerminator :: "code_unit \<Rightarrow> bool" where
  "isLineTerminator c = (c \<in> set [0xA, 0xD, 0x2028, 0x2029])"

definition trim :: "jsstring \<Rightarrow> jsstring" where
  "trim s = rev (dropWhile isWhiteSpace (rev (dropWhile isWhiteSpace s)))"

definition startsWith :: "jsstring \<Rightarrow> jsstring \<Rightarrow> bool" where
  "startsWith s p = prefix p s"

definition endsWith :: "jsstring \<Rightarrow> jsstring \<Rightarrow> bool" where
  "endsWith s p = (length p \<le> length s \<and> drop (length s - length p) s = p)"

text \<open>\<^verbatim>\<open>s.slice(start, end)\<close>: negative indices count from the end, both are clamped.\<close>

definition slice :: "jsstring \<Rightarrow> int \<Rightarrow> int \<Rightarrow> jsstring" where
  "slice s start end =
     (let len = int (length s);
          from = (if start < 0 then max (len + start) 0 else min start len);
          to = (if end < 0 then max (len + end) 0 else min end len)
      in take (nat (to - from)) (drop (nat from) s))"

text \<open>\<^verbatim>\<open>s.replace(pat, rep)\<close> with a string pattern: the first occurrence only.\<close>

fun replace_first :: "jsstring \<Rightarrow> jsstring \<Rightarrow> jsstring \<Rightarrow> jsstring" where
  "replace_first pat rep [] = (if pat = [] then rep else [])"
| "replace_first pat rep (c # cs) =
     (if prefix pat (c # cs) then rep @ drop (length pat) (c # cs)
      else c # replace_first pat rep cs)"

text \<open>\<^verbatim>\<open>s.split(d)\<close> with a separator of one code unit.\<close>

fun split_chr :: "code_unit \<Rightarrow> jsstring \<Rightarrow> jsstring list" where
  "split_chr d [] = [[]]"
| "split_chr d (c # cs) =
     (if c = d then [] # split_chr d cs
      else (case split_chr d cs of [] \<Rightarrow> [[c]] | x # xs \<Rightarrow> (c # x) # xs))"

section \<open>Numbers of the host language\<close>

text \<open>
  A JavaScript number is an IEEE 754 double: a finite value (a rational that the format
  can hold, \<open>Finite 0\<close> being the positive zero), the negative zero, an infinity, or NaN.
  Every arithmetic operation gives the exact result rounded to the nearest double, ties to
  the even significand (\<open>roundDouble\<close>): 53 significant bits, the least exponent
  \<open>- 1074\<close>, overflow to an infinity from \<open>2 ^ 1024\<close> on, underflow to a zero that keeps
  the sign.
\<close>

datatype double = Finite rat | NegZero | PosInf | NegInf | NaN

definition pow2 :: "int \<Rightarrow> rat" where
  "pow2 n = (if 0 \<le> n then 2 ^ nat n else 1 / 2 ^ nat (- n))"

text \<open>The number of binary digits of a natural number.\<close>

fun bitLength :: "nat \<Rightarrow> nat" where
  "bitLength n = (if n = 0 then 0 else Suc (bitLength (n div 2)))"

declare bitLength.simps [simp del]

text \<open>For \<open>0 < x\<close>, the exponent \<open>e\<close> with \<open>pow2 e \<le> x < pow2 (e + 1)\<close>.\<close>

definition ilog2 :: "rat \<Rightarrow> int" where
  "ilog2 x =
     (if 1 \<le> x then int (bitLength (nat \<lfloor>x\<rfloor>)) - 1
      else - int (bitLength (nat (\<lceil>1 / x\<rceil> - 1))))"

definition roundHalfEven :: "rat \<Rightarrow> int" where
  "roundHalfEven m =
     (let f = \<lfloor>m\<rfloor>; d = m - of_int f
      in if d < 1 / 2 then f else if 1 / 2 < d then f + 1
         else if even f then f else f + 1)"

definition roundDouble :: "rat \<Rightarrow> double" where
  "roundDouble x =
     (if x = 0 then Finite 0
      else
        (let a = \<bar>x\<bar>;
             q = max (ilog2 a - 52) (- 1074);
             n = roundHalfEven (a / pow2 q);
             r = of_int n * pow2 q
         in if pow2 1024 \<le> r then (if 0 < x then PosInf else NegInf)
            else if n = 0 then (if 0 < x then Finite 0 else NegZero)
            else Finite (if 0 < x then r else - r)))"

fun valueOf :: "double \<Rightarrow> rat" where
  "valueOf (Finite x) = x"
| "valueOf d = 0"

fun signBit :: "double \<Rightarrow> bool" where
  "signBit (Finite x) = (x < 0)"
| "signBit NegZero = True"
| "signBit PosInf = False"
| "signBit NegInf = True"
| "signBit NaN = False"

definition isZero :: "double \<Rightarrow> bool" where
  "isZero d = (d = Finite 0 \<or> d = NegZero)"

definition isInfinite :: "double \<Rightarrow> bool" where
  "isInfinite d = (d = PosInf \<or> d = NegInf)"

definition signedZero :: "bool \<Rightarrow> double" where
  "signedZero negative = (if negative then NegZero else Finite 0)"

definition signedInfinity :: "bool \<Rightarrow> double" where
  "signedInfinity negative = (if negative then NegInf else PosInf)"

text \<open>\<^verbatim>\<open>a + b\<close>, \<^verbatim>\<open>a * b\<close> and \<^verbatim>\<open>a / b\<close> on numbers.\<close>

definition addDouble :: "double \<Rightarrow> double \<Rightarrow> double" where
  "addDouble a b =
     (if a = NaN \<or> b = NaN then NaN
      else if isInfinite a then (if isInfinite b \<and> a \<noteq> b then NaN else a)
      else if isInfinite b then b
      else if a = NegZero \<and> b = NegZero then NegZero
      else if valueOf a + valueOf b = 0 then Finite 0
      else roundDouble (valueOf a + valueOf b))"

definition mulDouble :: "double \<Rightarrow> double \<Rightarrow> double" where
  "mulDouble a b =
     (if a = NaN \<or> b = NaN then NaN
      else if (isInfinite a \<and> isZero b) \<or> (isZero a \<and> isInfinite b) then NaN
      else if isInfinite a \<or> isInfinite b then signedInfinity (signBit a \<noteq> signBit b)
      else if valueOf a * valueOf b = 0 then signedZero (signBit a \<noteq> signBit b)
      else roundDouble (valueOf a * valueOf b))"

definition divDouble :: "double \<Rightarrow> double \<Rightarrow> double" where
  "divDouble a b =
     (if a = NaN \<or> b = NaN then NaN
      else if (isInfinite a \<and> isInfinite b) \<or> (isZero a \<and> isZero b) then NaN
      else if isInfinite a \<or> isZero b then signedInfinity (signBit a \<noteq> signBit b)
      else if isInfinite b \<or> isZero a then signedZero (signBit a \<noteq> signBit b)
      else roundDouble (valueOf a / valueOf b))"

text \<open>The numbers that count as false: both zeros and NaN.\<close>

definition falsyNumber :: "double \<Rightarrow> bool" where
  "falsyNumber d = (isZero d \<or> d = NaN)"

section \<open>Regular expressions\<close>

text \<open>
  The regular expressions of the component use literals, character classes, greedy and
  lazy repetition of a class, sequencing and one capturing group. The matcher follows the
  backtracking semantics of ECMAScript: a continuation receives the rest of the input and
  the captures, and the first alternative that lets the continuation succeed is taken.
  No expression here nests groups, so a capture is recorded when its group closes.
\<close>

datatype regex =
    Lit jsstring
  | Cls "code_unit \<Rightarrow> bool"
  | Star "code_unit \<Rightarrow> bool"
  | StarLazy "code_unit \<Rightarrow> bool"
  | Seq regex regex
  | Grp regex

fun star_greedy :: "(code_unit \<Rightarrow> bool) \<Rightarrow> jsstring \<Rightarrow> (jsstring \<Rightarrow> 'a option) \<Rightarrow> 'a option" where
  "star_greedy p [] k = k []"
| "star_greedy p (c # cs) k =
     (if p c then (case star_greedy p cs k of Some r \<Rightarrow> Some r | None \<Rightarrow> k (c # cs))
      else k (c # cs))"

fun star_lazy :: "(code_unit \<Rightarrow> bool) \<Rightarrow> jsstring \<Rightarrow> (jsstring \<Rightarrow> 'a option) \<Rightarrow> 'a option" where
  "star_lazy p [] k = k []"
| "star_lazy p (c # cs) k =
     (case k (c # cs) of Some r \<Rightarrow> Some r
      | None \<Rightarrow> if p c then star_lazy p cs k else None)"

fun matcher :: "regex \<Rightarrow> jsstring \<Rightarrow> jsstring list \<Rightarrow>
    (jsstring \<Rightarrow> jsstring list \<Rightarrow> (jsstring \<times> jsstring list) option) \<Rightarrow>
    (jsstring \<times> jsstring list) option" where
  "matcher (Lit l) s caps k = (if prefix l s then k (drop (length l) s) caps else None)"
| "matcher (Cls p) s caps k =
     (case s of [] \<Rightarrow> None | c # cs \<Rightarrow> if p c then k cs caps else None)"
| "matcher (Star p) s caps k = star_greedy p s (\<lambda>s'. k s' caps)"
| "matcher (StarLazy p) s caps k = star_lazy p s (\<lambda>s'. k s' caps)"
| "matcher (Seq a b) s caps k = matcher a s caps (\<lambda>s' caps'. matcher b s' caps' k)"
| "matcher (Grp r) s caps k =
     matcher r s caps (\<lambda>s' caps'. k s' (caps' @ [take (length s - length s') s]))"

text \<open>A match attempt at the start of \<open>s\<close>: the rest of the input and the captures.\<close>

definition match_at :: "regex \<Rightarrow> jsstring \<Rightarrow> (jsstring \<times> jsstring list) option" where
  "match_at r s = matcher r s [] (\<lambda>s' caps. Some (s', caps))"

text \<open>
  \<^verbatim>\<open>s.match(re)\<close> for a regular expression without the global flag: the leftmost index
  with a match, the matched text (\<^verbatim>\<open>match[0]\<close>) and the captures (\<^verbatim>\<open>match[1]\<close>, ...).
\<close>

record rmatch =
  index :: nat
  whole :: jsstring
  groups :: "jsstring list"

fun regex_exec :: "regex \<Rightarrow> jsstring \<Rightarrow> rmatch option" where
  "regex_exec r [] =
     (case match_at r [] of None \<Rightarrow> None
      | Some (rest, caps) \<Rightarrow> Some \<lparr>index = 0, whole = [], groups = caps\<rparr>)"
| "regex_exec r (c # cs) =
     (case match_at r (c # cs) of
        Some (rest, caps) \<Rightarrow>
          Some \<lparr>index = 0, whole = take (length (c # cs) - length rest) (c # cs), groups = caps\<rparr>
      | None \<Rightarrow>
          (case regex_exec r cs of None \<Rightarrow> None
           | Some m \<Rightarrow> Some (m\<lparr>index := Suc (index m)\<rparr>)))"

text \<open>
  \<^verbatim>\<open>s.replace(re, rep)\<close> for a regular expression with the global flag and a replacement
  without patterns: matches are replaced from left to right without overlap; after an empty
  match the search moves one code unit on.
\<close>

function replace_all :: "regex \<Rightarrow> jsstring \<Rightarrow> jsstring \<Rightarrow> jsstring" where
  "replace_all r rep [] = (case match_at r [] of None \<Rightarrow> [] | Some _ \<Rightarrow> rep)"
| "replace_all r rep (c # cs) =
     (case match_at r (c # cs) of
        None \<Rightarrow> c # replace_all r rep cs
      | Some (rest, caps) \<Rightarrow>
          if length rest < length (c # cs) then rep @ replace_all r rep rest
          else rep @ c # replace_all r rep cs)"
  by pat_completeness auto
termination
  by (relation "measure (\<lambda>(r, rep, s). length s)") auto

text \<open>
  \<^verbatim>\<open>s.replace(re, rep)\<close> for an expression that starts with \<^verbatim>\<open>^\<close> (no multiline flag):
  the only candidate position is index 0. The argument is the expression after the anchor.
\<close>

definition replace_anchored :: "regex \<Rightarrow> jsstring \<Rightarrow> jsstring \<Rightarrow> jsstring" where
  "replace_anchored r rep s = (case match_at r s of None \<Rightarrow> s | Some (rest, caps) \<Rightarrow> rep @ rest)"

text \<open>
  \<^verbatim>\<open>s.split(re)\<close>: the pieces between the matches, with the captures of each match put
  between them. \<open>chunk\<close> is the piece collected since the last match. A match that ends
  where the current piece starts is skipped.
\<close>

function split_loop :: "regex \<Rightarrow> jsstring \<Rightarrow> jsstring \<Rightarrow> jsstring list" where
  "split_loop r chunk [] = [chunk]"
| "split_loop r chunk (c # cs) =
     (case match_at r (c # cs) of
        None \<Rightarrow> split_loop r (chunk @ [c]) cs
      | Some (rest, caps) \<Rightarrow>
          if length rest < length (c # cs) then chunk # caps @ split_loop r [] rest
          else if chunk = [] then split_loop r [c] cs
          else chunk # caps @ split_loop r [c] cs)"
  by pat_completeness auto
termination
  by (relation "measure (\<lambda>(r, chunk, s). length s)") auto

definition split_re :: "regex \<Rightarrow> jsstring \<Rightarrow> jsstring list" where
  "split_re r s =
     (if s = [] then (case match_at r [] of None \<Rightarrow> [[]] | Some _ \<Rightarrow> [])
      else split_loop r [] s)"

section \<open>JSON values and \<^verbatim>\<open>JSON.parse\<close>\<close>

text \<open>
  The values \<^verbatim>\<open>JSON.parse\<close> returns, and \<open>JUndefined\<close> for a property that is not
  there. A number literal denotes the double nearest to its decimal value. An object
  keeps its members in source order; a later member with the
  same key overrides an earlier one when the object is read
  (\<open>get_sentiment_distribution\<close>).
  \<^verbatim>\<open>JSON.parse\<close> is a function of the host, not of the component: \<open>JSON_parse\<close> follows
  the JSON grammar of ECMA-404, and \<open>None\<close> is the SyntaxError that \<^verbatim>\<open>JSON.parse\<close> throws.
\<close>

datatype jsval =
    JUndefined
  | JNull
  | JBool bool
  | JNum double
  | JStr jsstring
  | JArr "jsval list"
  | JObj "(jsstring \<times> jsval) list"

definition isJSONWhiteSpace :: "code_unit \<Rightarrow> bool" where
  "isJSONWhiteSpace c = (c \<in> set [0x9, 0xA, 0xD, 0x20])"

definition isDigit :: "code_unit \<Rightarrow> bool" where
  "isDigit c = (0x30 \<le> c \<and> c \<le> 0x39)"

definition hexDigit :: "code_unit \<Rightarrow> nat option" where
  "hexDigit c =
     (if 0x30 \<le> c \<and> c \<le> 0x39 then Some (unat c - 48)
      else if 0x41 \<le> c \<and> c \<le> 0x46 then Some (unat c - 55)
      else if 0x61 \<le> c \<and> c \<le> 0x66 then Some (unat c - 87)
      else None)"

definition unescape :: "code_unit \<Rightarrow> code_unit option" where
  "unescape e =
     (if e = 0x22 then Some 0x22 else if e = 0x5C then Some 0x5C
      else if e = 0x2F then Some 0x2F else if e = 0x62 then Some 0x8
      else if e = 0x66 then Some 0xC else if e = 0x6E then Some 0xA
      else if e = 0x72 then Some 0xD else if e = 0x74 then Some 0x9
      else None)"

fun json_string :: "jsstring \<Rightarrow> (jsstring \<times> jsstring) option" where
  "json_string [] = None"
| "json_string (c # cs) =
     (if c = 0x22 then Some ([], cs)
      else if c = 0x5C then
        (case cs of
           [] \<Rightarrow> None
         | e # es \<Rightarrow>
             if e = 0x75 then
               (case es of
                  h1 # h2 # h3 # h4 # r \<Rightarrow>
                    (case (hexDigit h1, hexDigit h2, hexDigit h3, hexDigit h4) of
                       (Some a, Some b, Some x, Some y) \<Rightarrow>
                         (case json_string r of None \<Rightarrow> None
                          | Some (t, rest) \<Rightarrow>
                              Some (of_nat (((a * 16 + b) * 16 + x) * 16 + y) # t, rest))
                     | _ \<Rightarrow> None)
                | _ \<Rightarrow> None)
             else
               (case unescape e of None \<Rightarrow> None
                | Some u \<Rightarrow>
                    (case json_string es of None \<Rightarrow> None
                     | Some (t, rest) \<Rightarrow> Some (u # t, rest))))
      else if c < 0x20 then None
      else (case json_string cs of None \<Rightarrow> None | Some (t, rest) \<Rightarrow> Some (c # t, rest)))"

text \<open>
  A number is an optional minus sign, an integer part (\<open>0\<close>, or digits that do not start
  with \<open>0\<close>), an optional fraction and an optional exponent.
\<close>

definition digitsValue :: "jsstring \<Rightarrow> nat" where
  "digitsValue ds = foldl (\<lambda>a c. 10 * a + (unat c - 48)) 0 ds"

definition json_fraction :: "jsstring \<Rightarrow> (jsstring \<times> jsstring) option" where
  "json_fraction s =
     (case s of
        [] \<Rightarrow> Some ([], s)
      | c # r \<Rightarrow>
          if c = 0x2E then
            (if takeWhile isDigit r = [] then None
             else Some (takeWhile isDigit r, dropWhile isDigit r))
          else Some ([], s))"

definition json_exponent :: "jsstring \<Rightarrow> (int \<times> jsstring) option" where
  "json_exponent s =
     (case s of
        [] \<Rightarrow> Some (0, s)
      | c # r \<Rightarrow>
          if c = 0x65 \<or> c = 0x45 then
            (let neg = (r \<noteq> [] \<and> hd r = 0x2D);
                 r1 = (if r \<noteq> [] \<and> (hd r = 0x2D \<or> hd r = 0x2B) then tl r else r)
             in if takeWhile isDigit r1 = [] then None
                else Some ((if neg then - 1 else 1) * int (digitsValue (takeWhile isDigit r1)),
                           dropWhile isDigit r1))
          else Some (0, s))"

definition json_int :: "jsstring \<Rightarrow> (jsstring \<times> jsstring) option" where
  "json_int s =
     (case s of
        [] \<Rightarrow> None
      | c # r \<Rightarrow>
          if c = 0x30 then Some ([c], r)
          else if isDigit c then Some (takeWhile isDigit s, dropWhile isDigit s)
          else None)"

definition json_number :: "jsstring \<Rightarrow> (double \<times> jsstring) option" where
  "json_number s =
     (case s of
        [] \<Rightarrow> None
      | c # r \<Rightarrow>
          (case json_int (if c = 0x2D then r else s) of
             None \<Rightarrow> None
           | Some (ip, s2) \<Rightarrow>
               (case json_fraction s2 of
                  None \<Rightarrow> None
                | Some (fp, s3) \<Rightarrow>
                    (case json_exponent s3 of
                       None \<Rightarrow> None
                     | Some (ex, s4) \<Rightarrow>
                         Some (let v = (of_nat (digitsValue ip)
                                        + of_nat (digitsValue fp) / 10 ^ length fp)
                                       * (if 0 \<le> ex then 10 ^ nat ex else 1 / 10 ^ nat (- ex))
                               in if v = 0 then signedZero (c = 0x2D)
                                  else roundDouble (if c = 0x2D then - v else v),
                               s4)))))"

text \<open>
  A value, the elements of an array after its bracket, and the members of an object after
  its brace. Each returns what it parsed and the rest of the input. The two tests
  \<open>length rest < length s\<close> and \<open>length r3 < length r2\<close> are there for the termination
  proof only: a successful parse always consumes input (\<open>parse_shorter\<close> below), so
  they never fail.
\<close>

function parse_value :: "jsstring \<Rightarrow> (jsval \<times> jsstring) option"
  and parse_elements :: "jsstring \<Rightarrow> (jsval list \<times> jsstring) option"
  and parse_members :: "jsstring \<Rightarrow> ((jsstring \<times> jsval) list \<times> jsstring) option" where
  "parse_value [] = None"
| "parse_value (c # cs) =
     (if isJSONWhiteSpace c then parse_value cs
      else if c = 0x7B then
        (case dropWhile isJSONWhiteSpace cs of
           [] \<Rightarrow> None
         | d # ds \<Rightarrow>
             if d = 0x7D then Some (JObj [], ds)
             else (case parse_members (d # ds) of None \<Rightarrow> None
                   | Some (kvs, rest) \<Rightarrow> Some (JObj kvs, rest)))
      else if c = 0x5B then
        (case dropWhile isJSONWhiteSpace cs of
           [] \<Rightarrow> None
         | d # ds \<Rightarrow>
             if d = 0x5D then Some (JArr [], ds)
             else (case parse_elements (d # ds) of None \<Rightarrow> None
                   | Some (vs, rest) \<Rightarrow> Some (JArr vs, rest)))
      else if c = 0x22 then
        (case json_string cs of None \<Rightarrow> None | Some (t, rest) \<Rightarrow> Some (JStr t, rest))
      else if prefix (str ''true'') (c # cs) then Some (JBool True, drop 4 (c # cs))
      else if prefix (str ''false'') (c # cs) then Some (JBool False, drop 5 (c # cs))
      else if prefix (str ''null'') (c # cs) then Some (JNull, drop 4 (c # cs))
      else (case json_number (c # cs) of None \<Rightarrow> None | Some (x, rest) \<Rightarrow> Some (JNum x, rest)))"
| "parse_elements s =
     (case parse_value s of
        None \<Rightarrow> None
      | Some (v, rest) \<Rightarrow>
          if length rest < length s then
            (case dropWhile isJSONWhiteSpace rest of
               [] \<Rightarrow> None
             | d # ds \<Rightarrow>
                 if d = 0x5D then Some ([v], ds)
                 else if d = 0x2C then
                   (case parse_elements ds of None \<Rightarrow> None
                    | Some (vs, rest') \<Rightarrow> Some (v # vs, rest'))
                 else None)
          else None)"
| "parse_members s =
     (case dropWhile isJSONWhiteSpace s of
        [] \<Rightarrow> None
      | q # qs \<Rightarrow>
          if q \<noteq> 0x22 then None
          else
            (case json_string qs of
               None \<Rightarrow> None
             | Some (key, r1) \<Rightarrow>
                 (case dropWhile isJSONWhiteSpace r1 of
                    [] \<Rightarrow> None
                  | col # r2 \<Rightarrow>
                      if col \<noteq> 0x3A then None
                      else
                        (case parse_value r2 of
                           None \<Rightarrow> None
                         | Some (v, r3) \<Rightarrow>
                             if length r3 < length r2 then
                               (case dropWhile isJSONWhiteSpace r3 of
                                  [] \<Rightarrow> None
                                | d # ds \<Rightarrow>
                                    if d = 0x7D then Some ([(key, v)], ds)
                                    else if d = 0x2C then
                                      (case parse_members ds of None \<Rightarrow> None
                                       | Some (kvs, rest') \<Rightarrow> Some ((key, v) # kvs, rest'))
                                    else None)
                             else None))))"
  by pat_completeness auto
termination
proof -
  have js: "length rest < length s" if "json_string s = Some (t, rest)" for s t rest
    using that
  proof (induction s arbitrary: t rest rule: json_string.induct)
    case 1
    then show ?case by simp
  next
    case (2 c cs)
    then show ?case
      by (auto split: if_splits list.splits option.splits prod.splits) fastforce+
  qed
  have dw: "length ys < length xs" if "dropWhile P xs = y # ys"
    for P :: "code_unit \<Rightarrow> bool" and xs y ys
    using that length_dropWhile_le [of P xs] by simp
  show ?thesis
  proof (relation "measure (\<lambda>x. case x of Inl s \<Rightarrow> 2 * length s
                    | Inr (Inl s) \<Rightarrow> 2 * length s + 1 | Inr (Inr s) \<Rightarrow> 2 * length s + 1)",
         goal_cases)
    case 1 show ?case by simp
  next
    case 2 then show ?case by simp
  next
    case 3 then show ?case by (auto dest: dw)
  next
    case 4 then show ?case by (auto dest: dw)
  next
    case 5 then show ?case by simp
  next
    case 6 then show ?case by (auto dest!: dw)
  next
    case 7 then show ?case by (auto dest!: dw js)
  next
    case 8 then show ?case by (auto dest!: dw js)
  qed
qed

definition JSON_parse :: "jsstring \<Rightarrow> jsval option" where
  "JSON_parse s =
     (case parse_value s of
        None \<Rightarrow> None
      | Some (v, rest) \<Rightarrow> if dropWhile isJSONWhiteSpace rest = [] then Some v else None)"

section \<open>Extraction of the sentiment block\<close>

text \<open>The class \<^verbatim>\<open>[\s\S]\<close>: every code unit is white space or is not.\<close>

definition anyChar :: "code_unit \<Rightarrow> bool" where
  "anyChar c = True"

text \<open>
  \<^verbatim>\<open>/```json\s*({[\s\S]*?"sentiment_distribution"[\s\S]*?})\s*```/\<close>
\<close>

definition jsonRegex :: regex where
  \<open>jsonRegex =
     Seq (Lit (str ''```json''))
    (Seq (Star isWhiteSpace)
    (Seq (Grp (Seq (Lit (str ''{''))
              (Seq (StarLazy anyChar)
              (Seq (Lit (str ''"sentiment_distribution"''))
              (Seq (StarLazy anyChar)
                   (Lit (str ''}'')))))))
    (Seq (Star isWhiteSpace)
         (Lit (str ''```'')))))\<close>

text \<open>\<^verbatim>\<open>/--------------------------------------------------/g\<close>: fifty dashes.\<close>

definition separatorRegex :: regex where
  "separatorRegex = Lit (str ''--------------------------------------------------'')"

text \<open>Truthiness of a value, as \<^verbatim>\<open>if (v)\<close> tests it.\<close>

fun truthy :: "jsval \<Rightarrow> bool" where
  "truthy JUndefined = False"
| "truthy JNull = False"
| "truthy (JBool b) = b"
| "truthy (JNum x) = (\<not> falsyNumber x)"
| "truthy (JStr s) = (s \<noteq> [])"
| "truthy (JArr vs) = True"
| "truthy (JObj kvs) = True"

text \<open>
  \<^verbatim>\<open>parsed.sentiment_distribution\<close>: reading the property of \<^verbatim>\<open>null\<close> or
  \<^verbatim>\<open>undefined\<close> throws a TypeError (\<open>None\<close>); a primitive or an array has no property of
  that name; an object gives its last member with that key.
\<close>

fun get_sentiment_distribution :: "jsval \<Rightarrow> jsval option" where
  "get_sentiment_distribution JUndefined = None"
| "get_sentiment_distribution JNull = None"
| "get_sentiment_distribution (JObj kvs) =
     Some (case map_of (rev kvs) (str ''sentiment_distribution'') of
             None \<Rightarrow> JUndefined | Some v \<Rightarrow> v)"
| "get_sentiment_distribution v = Some JUndefined"

text \<open>
  The result of the \<^verbatim>\<open>useMemo\<close> callback: \<open>cleanText\<close> and \<open>sentimentData\<close> (\<open>JNull\<close>
  when absent), and the messages written with \<^verbatim>\<open>console.error\<close>.
\<close>

record extraction =
  cleanText :: jsstring
  sentimentData :: jsval
  logged :: "jsstring list"

definition extractSentiment :: "jsstring \<Rightarrow> extraction" where
  "extractSentiment rawText =
     (let unchanged = \<lparr>cleanText = rawText, sentimentData = JNull, logged = []\<rparr>;
          failed = \<lparr>cleanText = rawText, sentimentData = JNull,
                    logged = [str ''Failed to parse hidden sentiment JSON'']\<rparr>
      in case regex_exec jsonRegex rawText of
           None \<Rightarrow> unchanged
         | Some match \<Rightarrow>
             (case groups match of
                [] \<Rightarrow> unchanged
              | m1 # ms \<Rightarrow>
                  if m1 = [] then unchanged
                  else
                    (case JSON_parse m1 of
                       None \<Rightarrow> failed
                     | Some parsed \<Rightarrow>
                         (case get_sentiment_distribution parsed of
                            None \<Rightarrow> failed
                          | Some d \<Rightarrow>
                              \<lparr>cleanText =
                                 trim (replace_all separatorRegex []
                                   (trim (replace_first (whole match) [] rawText))),
                               sentimentData = (if truthy d then d else JNull),
                               logged = []\<rparr>))))"

section \<open>The pie chart\<close>

text \<open>
  \<^verbatim>\<open>getPieStyle(data: Record<string, number>)\<close>. Each element of \<^verbatim>\<open>parts\<close> is the
  template \<^verbatim>\<open>`${color} ${currentDeg}deg ${currentDeg + deg}deg`\<close>, kept here as the record of
  its three interpolated values; the function returns \<^verbatim>\<open>parts\<close>, which the source joins
  into one \<^verbatim>\<open>conic-gradient(...)\<close> string. \<^verbatim>\<open>data[star] || 0\<close> is 0 for a key that is
  absent and for a value that counts as false.
\<close>

record segment =
  color :: jsstring
  startDeg :: double
  endDeg :: double

definition colors :: "(jsstring \<times> jsstring) list" where
  "colors = [(str ''5'', str ''#10b981''), (str ''4'', str ''#34d399''),
             (str ''3'', str ''#facc15''), (str ''2'', str ''#fb923c''),
             (str ''1'', str ''#f87171'')]"

definition pieStep ::
    "(jsstring \<rightharpoonup> double) \<Rightarrow> double \<times> segment list \<Rightarrow> jsstring \<Rightarrow> double \<times> segment list" where
  "pieStep data st star =
     (let currentDeg = fst st; parts = snd st;
          val = (case data star of None \<Rightarrow> Finite 0
                 | Some v \<Rightarrow> if falsyNumber v then Finite 0 else v);
          deg = mulDouble (divDouble val (Finite 100)) (Finite 360)
      in (addDouble currentDeg deg,
          parts @ [\<lparr>color = (case map_of colors star of None \<Rightarrow> str ''undefined'' | Some c \<Rightarrow> c),
                    startDeg = currentDeg, endDeg = addDouble currentDeg deg\<rparr>]))"

definition getPieStyle :: "(jsstring \<rightharpoonup> double) \<Rightarrow> segment list" where
  "getPieStyle data =
     snd (foldl (pieStep data) (Finite 0, [])
            [str ''5'', str ''4'', str ''3'', str ''2'', str ''1''])"

section \<open>The markdown renderer\<close>

text \<open>
  \<^verbatim>\<open>renderFormattedText\<close> returns one element per line: \<^verbatim>\<open><h1>\<close>, \<^verbatim>\<open><h2>\<close>, \<^verbatim>\<open><h3>\<close>
  (\<open>Heading\<close> with its level), the list item (\<open>BulletItem\<close>), the empty \<^verbatim>\<open><div>\<close>
  (\<open>Spacer\<close>) and \<^verbatim>\<open><p>\<close> (\<open>Paragraph\<close>). The children of a list item or a paragraph are
  \<^verbatim>\<open><strong>\<close> elements (\<open>Emphasized\<close>) and strings (\<open>PlainText\<close>).
\<close>

datatype span = Emphasized jsstring | PlainText jsstring

datatype block =
    Heading nat jsstring
  | BulletItem "span list"
  | Spacer
  | Paragraph "span list"

text \<open>\<^verbatim>\<open>/(\*\*.*?\*\*)/g\<close>: the dot matches every code unit but a line terminator.\<close>

definition boldRegex :: regex where
  "boldRegex = Grp (Seq (Lit (str ''**''))
                   (Seq (StarLazy (\<lambda>c. \<not> isLineTerminator c)) (Lit (str ''**''))))"

text \<open>\<^verbatim>\<open>/^[-*(em dash)]\s+/\<close> after its anchor, the em dash being the code unit \<open>0x2014\<close>.\<close>

definition bulletRegex :: regex where
  "bulletRegex = Seq (Cls (\<lambda>c. c \<in> set [0x2D, 0x2A, 0x2014]))
                    (Seq (Cls isWhiteSpace) (Star isWhiteSpace))"

definition boldSpans :: "jsstring \<Rightarrow> span list" where
  "boldSpans content =
     map (\<lambda>part. if startsWith part (str ''**'') \<and> endsWith part (str ''**'')
                 then Emphasized (slice part 2 (- 2)) else PlainText part)
         (split_re boldRegex content)"

definition renderLine :: "jsstring \<Rightarrow> block" where
  "renderLine line =
     (let trimLine = trim line
      in if startsWith trimLine (str ''# '') then
           Heading 1 (replace_first (str ''# '') [] trimLine)
         else if startsWith trimLine (str ''## '') then
           Heading 2 (replace_first (str ''## '') [] trimLine)
         else if startsWith trimLine (str ''### '') then
           Heading 3 (replace_first (str ''### '') [] trimLine)
         else if startsWith trimLine (str ''- '') \<or> startsWith trimLine (str ''* '')
                 \<or> startsWith trimLine (0x2014 # str '' '') then
           BulletItem (boldSpans (replace_anchored bulletRegex [] trimLine))
         else if trimLine = [] then Spacer
         else Paragraph (boldSpans trimLine))"

definition renderFormattedText :: "jsstring \<Rightarrow> block list" where
  "renderFormattedText text = map renderLine (split_chr 0xA text)"

section \<open>Specification-level notions\<close>

text \<open>
  The definitions of this section are not taken from the source. They restate, in the words
  of the specification, what the source computes, and the theorems below compare the two.
\<close>

text \<open>
  The percentage of a star key: 0 when the key is absent (NaN and the negative zero count
  as 0 too), and its sweep in degrees, percentage / 100 * 360 in the arithmetic of doubles.
\<close>

definition percentage :: "(jsstring \<rightharpoonup> double) \<Rightarrow> string \<Rightarrow> double" where
  "percentage data k =
     (case data (str k) of None \<Rightarrow> Finite 0
      | Some v \<Rightarrow> if v = NaN \<or> v = NegZero then Finite 0 else v)"

definition sweep :: "(jsstring \<rightharpoonup> double) \<Rightarrow> string \<Rightarrow> double" where
  "sweep data k = mulDouble (divDouble (percentage data k) (Finite 100)) (Finite 360)"

text \<open>
  The classification of a trimmed line by its prefix, in the order of the specification:
  a heading keeps the line without its prefix, a bullet item the line without its first
  code unit (the marker) and the white space after it.
\<close>

definition classifyLine :: "jsstring \<Rightarrow> block" where
  "classifyLine t =
     (if prefix (str ''# '') t then Heading 1 (drop 2 t)
      else if prefix (str ''## '') t then Heading 2 (drop 3 t)
      else if prefix (str ''### '') t then Heading 3 (drop 4 t)
      else if prefix (str ''- '') t \<or> prefix (str ''* '') t \<or> prefix (0x2014 # str '' '') t then
        BulletItem (boldSpans (dropWhile isWhiteSpace (drop 1 t)))
      else if t = [] then Spacer
      else Paragraph (boldSpans t))"

text \<open>The inverse of splitting on newline: the lines joined with one newline between them.\<close>

fun joinLines :: "jsstring list \<Rightarrow> jsstring" where
  "joinLines [] = []"
| "joinLines [l] = l"
| "joinLines (l # m # ls) = l @ 0xA # joinLines (m # ls)"

text \<open>
  The paired delimiters: after an opening \<open>**\<close>, \<open>closing\<close> counts the code units up to the
  nearest \<open>**\<close> that follows on the same line (none if a line terminator comes first).
  \<open>pairedSplit\<close> cuts the content at every such pair, from left to right, and keeps the
  pairs with their content between the pieces.
\<close>

fun closing :: "jsstring \<Rightarrow> nat option" where
  "closing [] = None"
| "closing (c # cs) =
     (if prefix (str ''**'') (c # cs) then Some 0
      else if isLineTerminator c then None
      else (case closing cs of None \<Rightarrow> None | Some n \<Rightarrow> Some (Suc n)))"

function pairedSplit :: "jsstring \<Rightarrow> jsstring \<Rightarrow> jsstring list" where
  "pairedSplit chunk [] = [chunk]"
| "pairedSplit chunk (c # cs) =
     (if prefix (str ''**'') (c # cs) then
        (case closing (drop 2 (c # cs)) of
           None \<Rightarrow> pairedSplit (chunk @ [c]) cs
         | Some n \<Rightarrow> chunk # take (n + 4) (c # cs) # pairedSplit [] (drop (n + 4) (c # cs)))
      else pairedSplit (chunk @ [c]) cs)"
  by pat_completeness auto
termination
  by (relation "measure (\<lambda>(chunk, s). length s)") auto

text \<open>A fragment without its first two and its last two code units.\<close>

definition stripDelimiters :: "jsstring \<Rightarrow> jsstring" where
  "stripDelimiters f = rev (drop 2 (rev (drop 2 f)))"

definition spanOf :: "jsstring \<Rightarrow> span" where
  "spanOf f =
     (if prefix (str ''**'') f \<and> suffix (str ''**'') f then Emphasized (stripDelimiters f)
      else PlainText f)"

text \<open>
  The words a regular expression can match, and the captures such a match can record. They
  serve the proofs about the backtracking matcher.
\<close>

fun lang :: "regex \<Rightarrow> jsstring set" where
  "lang (Lit l) = {l}"
| "lang (Cls p) = {w. \<exists>c. w = [c] \<and> p c}"
| "lang (Star p) = {w. list_all p w}"
| "lang (StarLazy p) = {w. list_all p w}"
| "lang (Seq a b) = {w. \<exists>u v. w = u @ v \<and> u \<in> lang a \<and> v \<in> lang b}"
| "lang (Grp r) = lang r"

fun caplang :: "regex \<Rightarrow> jsstring list set" where
  "caplang (Lit l) = {[]}"
| "caplang (Cls p) = {[]}"
| "caplang (Star p) = {[]}"
| "caplang (StarLazy p) = {[]}"
| "caplang (Seq a b) = {cs. \<exists>x y. cs = x @ y \<and> x \<in> caplang a \<and> y \<in> caplang b}"
| "caplang (Grp r) = {cs. \<exists>x w. cs = x @ [w] \<and> x \<in> caplang r \<and> w \<in> lang r}"

text \<open>The number of dashes a string starts with.\<close>

definition leadingDashes :: "jsstring \<Rightarrow> nat" where
  "leadingDashes s = length (takeWhile (\<lambda>c. c = 0x2D) s)"

text \<open>
  A fenced block, as the reports carry it: the opening fence \<^verbatim>\<open>```json\<close>, white space, a
  text from \<^verbatim>\<open>{\<close> to \<^verbatim>\<open>}\<close> that holds the quoted name \<^verbatim>\<open>"sentiment_distribution"\<close>,
  white space, and the closing fence. A report contains a fenced block when one of its
  substrings is one.
\<close>

definition fencedBlock :: "jsstring \<Rightarrow> bool" where
  \<open>fencedBlock w =
     (\<exists>w1 a b w2. list_all isWhiteSpace w1 \<and> list_all isWhiteSpace w2 \<and>
        w = str ''```json'' @ w1 @ str ''{'' @ a @ str ''"sentiment_distribution"'' @ b
              @ str ''}'' @ w2 @ str ''```'')\<close>

definition containsFencedBlock :: "jsstring \<Rightarrow> bool" where
  "containsFencedBlock raw = (\<exists>pre w post. raw = pre @ w @ post \<and> fencedBlock w)"

section \<open>Evaluation rules\<close>

lemmas string_eval = str_def trim_def startsWith_def endsWith_def slice_def
  isWhiteSpace_def isLineTerminator_def anyChar_def Let_def

lemmas render_eval = renderFormattedText_def renderLine_def boldSpans_def split_re_def
  match_at_def boldRegex_def bulletRegex_def replace_anchored_def

lemma bitLength_0: "bitLength 0 = 0"
  by (simp add: bitLength.simps)

lemma bitLength_1: "bitLength (Suc 0) = Suc 0"
  by (subst bitLength.simps) (simp add: bitLength_0)

lemma bitLength_numeral: "bitLength (numeral k) = Suc (bitLength (numeral k div 2))"
  by (subst bitLength.simps) simp

lemma floor_rat_numeral_div:
  "\<lfloor>numeral a / numeral b :: rat\<rfloor> = numeral a div numeral b"
  by (metis floor_divide_of_int_eq of_int_numeral)

lemma ceiling_rat_numeral_div:
  "\<lceil>numeral a / numeral b :: rat\<rceil> = - (- numeral a div numeral b)"
proof -
  have "\<lceil>of_int (numeral a) / of_int (numeral b) :: rat\<rceil> = - (- numeral a div numeral b)"
    by (metis ceiling_def floor_divide_of_int_eq minus_divide_left of_int_minus)
  then show ?thesis by simp
qed

lemmas double_eval = roundDouble_def roundHalfEven_def ilog2_def pow2_def Let_def
  floor_rat_numeral_div ceiling_rat_numeral_div bitLength_0 bitLength_1 bitLength_numeral
  addDouble_def mulDouble_def divDouble_def isZero_def isInfinite_def signedZero_def
  signedInfinity_def falsyNumber_def

lemmas pie_eval = getPieStyle_def pieStep_def colors_def percentage_def sweep_def

lemmas json_eval = JSON_parse_def isJSONWhiteSpace_def json_number_def json_int_def json_fraction_def
  json_exponent_def isDigit_def digitsValue_def unescape_def hexDigit_def double_eval

lemmas regex_eval = jsonRegex_def separatorRegex_def match_at_def

section \<open>The JSON parser consumes its input\<close>

text \<open>
  Every successful parse leaves less input than it was given. The length tests in
  \<open>parse_elements\<close> and \<open>parse_members\<close>, which serve their termination proof, therefore
  never fail, and both functions satisfy their equations without those tests.
\<close>

lemma json_string_shorter: "json_string s = Some (t, rest) \<Longrightarrow> length rest < length s"
proof (induction s arbitrary: t rest rule: json_string.induct)
  case 1
  then show ?case by simp
next
  case (2 c cs)
  then show ?case
    by (auto split: if_splits list.splits option.splits prod.splits) fastforce+
qed

lemma json_fraction_shorter: "json_fraction s = Some (fp, rest) \<Longrightarrow> length rest \<le> length s"
proof (cases s)
  case Nil
  assume "json_fraction s = Some (fp, rest)"
  with Nil show ?thesis by (simp add: json_fraction_def)
next
  case (Cons c r)
  assume "json_fraction s = Some (fp, rest)"
  with Cons have "rest = dropWhile isDigit r \<or> rest = s"
    by (auto simp: json_fraction_def split: if_splits)
  then show ?thesis
    using length_dropWhile_le [of isDigit r] Cons by auto
qed

lemma json_exponent_shorter: "json_exponent s = Some (ex, rest) \<Longrightarrow> length rest \<le> length s"
proof (cases s)
  case Nil
  assume "json_exponent s = Some (ex, rest)"
  with Nil show ?thesis by (simp add: json_exponent_def)
next
  case (Cons c r)
  assume a: "json_exponent s = Some (ex, rest)"
  show ?thesis
  proof (cases "c = 0x65 \<or> c = 0x45")
    case False
    with a Cons show ?thesis by (auto simp: json_exponent_def)
  next
    case True
    let ?r1 = "if r \<noteq> [] \<and> (hd r = 0x2D \<or> hd r = 0x2B) then tl r else r"
    from a Cons True have "rest = dropWhile isDigit ?r1"
      by (auto simp: json_exponent_def Let_def split: if_splits)
    moreover have "length (dropWhile isDigit ?r1) \<le> length ?r1"
      by (rule length_dropWhile_le)
    moreover have "length ?r1 \<le> length r" by simp
    ultimately show ?thesis using Cons by simp
  qed
qed

lemma json_int_shorter: "json_int s = Some (ip, rest) \<Longrightarrow> length rest < length s"
proof (cases s)
  case Nil
  assume "json_int s = Some (ip, rest)"
  with Nil show ?thesis by (simp add: json_int_def)
next
  case (Cons c r)
  assume a: "json_int s = Some (ip, rest)"
  show ?thesis
  proof (cases "c = 0x30")
    case True
    with a Cons show ?thesis by (simp add: json_int_def)
  next
    case False
    with a Cons have d: "isDigit c" and r: "rest = dropWhile isDigit s"
      by (auto simp: json_int_def split: if_splits)
    from d Cons have "dropWhile isDigit s = dropWhile isDigit r" by simp
    with r Cons length_dropWhile_le [of isDigit r] show ?thesis by simp
  qed
qed

lemma json_number_shorter: "json_number s = Some (x, rest) \<Longrightarrow> length rest < length s"
proof (cases s)
  case Nil
  assume "json_number s = Some (x, rest)"
  with Nil show ?thesis by (simp add: json_number_def)
next
  case (Cons c r)
  assume a: "json_number s = Some (x, rest)"
  let ?s1 = "if c = 0x2D then r else c # r"
  from a Cons obtain ip s2 where i: "json_int ?s1 = Some (ip, s2)"
    by (cases "json_int ?s1") (auto simp: json_number_def)
  from a Cons i obtain fp s3 where f: "json_fraction s2 = Some (fp, s3)"
    by (cases "json_fraction s2") (auto simp: json_number_def)
  from a Cons i f obtain ex s4 where e: "json_exponent s3 = Some (ex, s4)"
    by (cases "json_exponent s3") (auto simp: json_number_def)
  from a Cons i f e have "rest = s4"
    by (simp add: json_number_def)
  moreover have "length s2 < length s"
    using json_int_shorter [OF i] Cons by (simp split: if_splits)
  ultimately show ?thesis
    using json_fraction_shorter [OF f] json_exponent_shorter [OF e]
    by simp
qed

lemma dropWhile_Cons_shorter: "dropWhile P xs = y # ys \<Longrightarrow> length ys < length xs"
  using length_dropWhile_le [of P xs] by simp

lemma parse_shorter:
  "(\<forall>v rest. parse_value s = Some (v, rest) \<longrightarrow> length rest < length s)"
  "(\<forall>vs rest. parse_elements s1 = Some (vs, rest) \<longrightarrow> length rest < length s1)"
  "(\<forall>kvs rest. parse_members s2 = Some (kvs, rest) \<longrightarrow> length rest < length s2)"
proof (induction s and s1 and s2 rule: parse_value_parse_elements_parse_members.induct)
  case 1
  then show ?case by simp
next
  case (2 c cs)
  show ?case
  proof (intro allI impI)
    fix v rest
    assume a: "parse_value (c # cs) = Some (v, rest)"
    consider (ws) "isJSONWhiteSpace c"
      | (obj) "\<not> isJSONWhiteSpace c" "c = 0x7B"
      | (arr) "\<not> isJSONWhiteSpace c" "c \<noteq> 0x7B" "c = 0x5B"
      | (other) "\<not> isJSONWhiteSpace c" "c \<noteq> 0x7B" "c \<noteq> 0x5B"
      by blast
    then show "length rest < length (c # cs)"
    proof cases
      case ws
      from a have "parse_value cs = Some (v, rest)" by (simp add: ws)
      with 2(1) [OF ws] have "length rest < length cs" by blast
      then show ?thesis by simp
    next
      case obj
      show ?thesis
      proof (cases "dropWhile isJSONWhiteSpace cs")
        case Nil
        from a show ?thesis by (simp add: obj Nil isJSONWhiteSpace_def del: parse_members.simps parse_elements.simps)
      next
        case (Cons d ds)
        note dw = dropWhile_Cons_shorter [OF Cons]
        show ?thesis
        proof (cases "d = 0x7D")
          case True
          from a have "rest = ds" by (simp add: obj Cons True isJSONWhiteSpace_def del: parse_members.simps parse_elements.simps)
          with dw show ?thesis by simp
        next
          case False
          from a obtain kvs where "parse_members (d # ds) = Some (kvs, rest)"
            by (cases "parse_members (d # ds)") (auto simp add: obj Cons False isJSONWhiteSpace_def simp del: parse_members.simps parse_elements.simps)
          with 2(2) [OF obj Cons False] have "length rest < length (d # ds)" by blast
          with dw show ?thesis by simp
        qed
      qed
    next
      case arr
      show ?thesis
      proof (cases "dropWhile isJSONWhiteSpace cs")
        case Nil
        from a show ?thesis by (simp add: arr Nil isJSONWhiteSpace_def del: parse_members.simps parse_elements.simps)
      next
        case (Cons d ds)
        note dw = dropWhile_Cons_shorter [OF Cons]
        show ?thesis
        proof (cases "d = 0x5D")
          case True
          from a have "rest = ds" by (simp add: arr Cons True isJSONWhiteSpace_def del: parse_members.simps parse_elements.simps)
          with dw show ?thesis by simp
        next
          case False
          from a obtain vs where "parse_elements (d # ds) = Some (vs, rest)"
            by (cases "parse_elements (d # ds)") (auto simp add: arr Cons False isJSONWhiteSpace_def simp del: parse_members.simps parse_elements.simps)
          with 2(3) [OF arr Cons False] have "length rest < length (d # ds)" by blast
          with dw show ?thesis by simp
        qed
      qed
    next
      case other
      from a have "(\<exists>t. json_string cs = Some (t, rest)) \<or> rest = drop 4 (c # cs)
          \<or> rest = drop 5 (c # cs) \<or> (\<exists>x. json_number (c # cs) = Some (x, rest))"
        by (simp add: other del: parse_members.simps parse_elements.simps split: if_splits option.splits prod.splits)
      then show ?thesis
        using json_string_shorter [of cs _ rest] json_number_shorter [of "c # cs" _ rest]
        by auto
    qed
  qed
next
  case (3 s)
  show ?case
  proof (intro allI impI)
    fix vs rest
    assume "parse_elements s = Some (vs, rest)"
    then have a: "(case parse_value s of
        None \<Rightarrow> None
      | Some (v, rest) \<Rightarrow>
          if length rest < length s then
            (case dropWhile isJSONWhiteSpace rest of
               [] \<Rightarrow> None
             | d # ds \<Rightarrow>
                 if d = 0x5D then Some ([v], ds)
                 else if d = 0x2C then
                   (case parse_elements ds of None \<Rightarrow> None
                    | Some (vs, rest') \<Rightarrow> Some (v # vs, rest'))
                 else None)
          else None) = Some (vs, rest)"
      by (subst (asm) parse_elements.simps)
    then obtain v r where v: "parse_value s = Some (v, r)"
      by (cases "parse_value s") auto
    from a v have lt: "length r < length s"
      by (simp del: parse_elements.simps split: if_splits)
    from a v lt obtain d ds where dw: "dropWhile isJSONWhiteSpace r = d # ds"
      by (cases "dropWhile isJSONWhiteSpace r") (simp_all del: parse_elements.simps)
    note sh = dropWhile_Cons_shorter [OF dw]
    show "length rest < length s"
    proof (cases "d = 0x5D")
      case True
      with a v lt dw have "rest = ds" by (simp del: parse_elements.simps)
      with sh lt show ?thesis by simp
    next
      case False
      with a v lt dw have c: "d = 0x2C"
        by (simp del: parse_elements.simps split: if_splits)
      with a v lt dw False obtain vs' where "parse_elements ds = Some (vs', rest)"
        by (cases "parse_elements ds") (auto simp del: parse_elements.simps)
      with 3(2) [OF v refl lt dw False c] have "length rest < length ds" by blast
      with sh lt show ?thesis by simp
    qed
  qed
next
  case (4 s)
  show ?case
  proof (intro allI impI)
    fix kvs rest
    assume "parse_members s = Some (kvs, rest)"
    then have a: "(case dropWhile isJSONWhiteSpace s of
        [] \<Rightarrow> None
      | q # qs \<Rightarrow>
          if q \<noteq> 0x22 then None
          else
            (case json_string qs of
               None \<Rightarrow> None
             | Some (key, r1) \<Rightarrow>
                 (case dropWhile isJSONWhiteSpace r1 of
                    [] \<Rightarrow> None
                  | col # r2 \<Rightarrow>
                      if col \<noteq> 0x3A then None
                      else
                        (case parse_value r2 of
                           None \<Rightarrow> None
                         | Some (v, r3) \<Rightarrow>
                             if length r3 < length r2 then
                               (case dropWhile isJSONWhiteSpace r3 of
                                  [] \<Rightarrow> None
                                | d # ds \<Rightarrow>
                                    if d = 0x7D then Some ([(key, v)], ds)
                                    else if d = 0x2C then
                                      (case parse_members ds of None \<Rightarrow> None
                                       | Some (kvs, rest') \<Rightarrow> Some ((key, v) # kvs, rest'))
                                    else None)
                             else None)))) = Some (kvs, rest)"
      by (subst (asm) parse_members.simps)
    then obtain q qs where q: "dropWhile isJSONWhiteSpace s = q # qs"
      by (cases "dropWhile isJSONWhiteSpace s") simp_all
    from a q have q22: "\<not> q \<noteq> 0x22"
      by (simp del: parse_members.simps split: if_splits)
    from a q q22 obtain key r1 where k: "json_string qs = Some (key, r1)"
      by (cases "json_string qs") (auto simp del: parse_members.simps)
    from a q q22 k obtain col r2 where c: "dropWhile isJSONWhiteSpace r1 = col # r2"
      by (cases "dropWhile isJSONWhiteSpace r1") (simp_all del: parse_members.simps)
    from a q q22 k c have c3a: "\<not> col \<noteq> 0x3A"
      by (simp del: parse_members.simps split: if_splits)
    from a q q22 k c c3a obtain v r3 where v: "parse_value r2 = Some (v, r3)"
      by (cases "parse_value r2") (auto simp del: parse_members.simps)
    from a q q22 k c c3a v have lt: "length r3 < length r2"
      by (simp del: parse_members.simps split: if_splits)
    from a q q22 k c c3a v lt obtain d ds where dw: "dropWhile isJSONWhiteSpace r3 = d # ds"
      by (cases "dropWhile isJSONWhiteSpace r3") (simp_all del: parse_members.simps)
    have chain: "length t < length s" if "length t < length r3" for t :: jsstring
      using that lt dropWhile_Cons_shorter [OF c] json_string_shorter [OF k]
        dropWhile_Cons_shorter [OF q] by linarith
    show "length rest < length s"
    proof (cases "d = 0x7D")
      case True
      with a q q22 k c c3a v lt dw have "rest = ds" by (simp del: parse_members.simps)
      with chain [of ds] dropWhile_Cons_shorter [OF dw] show ?thesis by simp
    next
      case False
      with a q q22 k c c3a v lt dw have cm: "d = 0x2C"
        by (simp del: parse_members.simps split: if_splits)
      with a q q22 k c c3a v lt dw False obtain kvs' where
        "parse_members ds = Some (kvs', rest)"
        by (cases "parse_members ds") (auto simp del: parse_members.simps)
      with 4(2) [OF q q22 k refl c c3a v refl lt dw False cm]
      have "length rest < length ds" by blast
      with chain [of rest] dropWhile_Cons_shorter [OF dw] show ?thesis by simp
    qed
  qed
qed

lemma parse_elements_unguarded:
  "parse_elements s =
     (case parse_value s of
        None \<Rightarrow> None
      | Some (v, rest) \<Rightarrow>
          (case dropWhile isJSONWhiteSpace rest of
             [] \<Rightarrow> None
           | d # ds \<Rightarrow>
               if d = 0x5D then Some ([v], ds)
               else if d = 0x2C then
                 (case parse_elements ds of None \<Rightarrow> None
                  | Some (vs, rest') \<Rightarrow> Some (v # vs, rest'))
               else None))"
proof (cases "parse_value s")
  case None
  then show ?thesis by (subst parse_elements.simps) simp
next
  case (Some a)
  obtain v rest where a: "a = (v, rest)" by (cases a)
  from Some a parse_shorter(1) [of s] have "length rest < length s" by blast
  with Some a show ?thesis
    by (subst parse_elements.simps) (simp del: parse_elements.simps)
qed

lemma parse_members_unguarded:
  "parse_members s =
     (case dropWhile isJSONWhiteSpace s of
        [] \<Rightarrow> None
      | q # qs \<Rightarrow>
          if q \<noteq> 0x22 then None
          else
            (case json_string qs of
               None \<Rightarrow> None
             | Some (key, r1) \<Rightarrow>
                 (case dropWhile isJSONWhiteSpace r1 of
                    [] \<Rightarrow> None
                  | col # r2 \<Rightarrow>
                      if col \<noteq> 0x3A then None
                      else
                        (case parse_value r2 of
                           None \<Rightarrow> None
                         | Some (v, r3) \<Rightarrow>
                             (case dropWhile isJSONWhiteSpace r3 of
                                [] \<Rightarrow> None
                              | d # ds \<Rightarrow>
                                  if d = 0x7D then Some ([(key, v)], ds)
                                  else if d = 0x2C then
                                    (case parse_members ds of None \<Rightarrow> None
                                     | Some (kvs, rest') \<Rightarrow> Some ((key, v) # kvs, rest'))
                                  else None)))))"
proof -
  have g: "(if length r3 < length r2 then x else None) = x"
    if "parse_value r2 = Some (v, r3)" for r2 v r3 and x :: "((jsstring \<times> jsval) list \<times> jsstring) option"
    using that parse_shorter(1) [of r2] by simp
  show ?thesis
    by (subst parse_members.simps)
       (simp del: parse_members.simps add: g
          cong: list.case_cong option.case_cong prod.case_cong if_cong)
qed

section \<open>Lines and headings\<close>

lemma replace_first_prefix:
  "prefix p t \<Longrightarrow> p \<noteq> [] \<Longrightarrow> replace_first p rep t = rep @ drop (length p) t"
  by (cases t) auto

lemma star_greedy_total:
  "star_greedy p s (\<lambda>s'. Some (f s')) = Some (f (dropWhile p s))"
  by (induction s) auto

lemma bullet_strip:
  assumes "prefix [m, 0x20] t" and "m \<in> set [0x2D, 0x2A, 0x2014]"
  shows "replace_anchored bulletRegex [] t = dropWhile isWhiteSpace (drop 1 t)"
proof -
  from assms(1) obtain r where t: "t = m # 0x20 # r"
    by (auto simp: prefix_def)
  have ws: "isWhiteSpace 0x20"
    by (simp add: isWhiteSpace_def)
  show ?thesis
    using assms(2) ws
    by (simp add: t replace_anchored_def match_at_def bulletRegex_def star_greedy_total)
qed

lemma renderLine_classify: "renderLine line = classifyLine (trim line)"
proof -
  have s2: "length (str ''# '') = 2" and s3: "length (str ''## '') = 3"
    and s4: "length (str ''### '') = 4"
    by (simp_all add: str_def)
  have ne: "str ''# '' \<noteq> []" "str ''## '' \<noteq> []" "str ''### '' \<noteq> []"
    by (simp_all add: str_def)
  have b1: "prefix (str ''- '') t \<Longrightarrow> replace_anchored bulletRegex [] t = dropWhile isWhiteSpace (drop 1 t)" for t
    using bullet_strip [of "0x2D" t] by (simp add: str_def)
  have b2: "prefix (str ''* '') t \<Longrightarrow> replace_anchored bulletRegex [] t = dropWhile isWhiteSpace (drop 1 t)" for t
    using bullet_strip [of "0x2A" t] by (simp add: str_def)
  have b3: "prefix (0x2014 # str '' '') t \<Longrightarrow> replace_anchored bulletRegex [] t = dropWhile isWhiteSpace (drop 1 t)" for t
    using bullet_strip [of "0x2014" t] by (simp add: str_def)
  show ?thesis
    unfolding renderLine_def classifyLine_def Let_def startsWith_def
    using replace_first_prefix [of "str ''# ''" "trim line" "[]"]
      replace_first_prefix [of "str ''## ''" "trim line" "[]"]
      replace_first_prefix [of "str ''### ''" "trim line" "[]"]
      b1 [of "trim line"] b2 [of "trim line"] b3 [of "trim line"]
    by (auto simp: s2 s3 s4 ne)
qed

lemma split_chr_nonempty: "split_chr d s \<noteq> []"
  by (induction s) (auto split: list.splits)

lemma joinLines_split_chr: "joinLines (split_chr 0xA s) = s"
proof (induction s)
  case Nil
  then show ?case by simp
next
  case (Cons c s)
  obtain x xs where sp: "split_chr 0xA s = x # xs"
    using split_chr_nonempty [of "0xA" s] by (cases "split_chr 0xA s") auto
  show ?case
  proof (cases "c = 0xA")
    case True
    then show ?thesis using Cons sp by simp
  next
    case False
    have "joinLines ((c # x) # xs) = c # joinLines (x # xs)"
      by (cases xs) simp_all
    then show ?thesis using False Cons sp by simp
  qed
qed

lemma split_chr_no_separator: "d \<notin> set (concat (split_chr d s))"
  by (induction s) (auto split: list.splits)

section \<open>The delimiter pairs\<close>

lemma closing_bound: "closing s = Some n \<Longrightarrow> n + 2 \<le> length s \<and> prefix (str ''**'') (drop n s)"
proof (induction s arbitrary: n)
  case Nil
  then show ?case by simp
next
  case (Cons c cs)
  show ?case
  proof (cases "prefix (str ''**'') (c # cs)")
    case True
    with Cons.prems have "n = 0" by simp
    moreover from True have "2 \<le> length (c # cs)"
      by (auto simp: str_def prefix_def)
    ultimately show ?thesis using True by simp
  next
    case False
    with Cons.prems obtain k where k: "closing cs = Some k" "n = Suc k"
      by (auto split: if_splits option.splits)
    with Cons.IH [of k] show ?thesis by simp
  qed
qed

lemma star_lazy_closing:
  assumes "\<And>s'. \<not> prefix (str ''**'') s' \<Longrightarrow> k s' = None"
    and "\<And>s'. prefix (str ''**'') s' \<Longrightarrow> k s' \<noteq> None"
  shows "star_lazy (\<lambda>c. \<not> isLineTerminator c) s k =
         (case closing s of None \<Rightarrow> None | Some n \<Rightarrow> k (drop n s))"
proof (induction s)
  case Nil
  then show ?case using assms(1) [of "[]"] by (simp add: str_def)
next
  case (Cons c cs)
  show ?case
  proof (cases "prefix (str ''**'') (c # cs)")
    case True
    with assms(2) obtain r where "k (c # cs) = Some r" by fastforce
    with True show ?thesis by simp
  next
    case False
    with assms(1) have "k (c # cs) = None" by blast
    with False Cons show ?thesis by (simp split: option.splits)
  qed
qed

lemma match_at_boldRegex:
  "match_at boldRegex s =
     (if prefix (str ''**'') s then
        (case closing (drop 2 s) of None \<Rightarrow> None
         | Some n \<Rightarrow> Some (drop (n + 4) s, [take (n + 4) s]))
      else None)"
proof (cases "prefix (str ''**'') s")
  case False
  then show ?thesis by (simp add: match_at_def boldRegex_def)
next
  case True
  have len: "length (str ''**'') = 2" by (simp add: str_def)
  let ?k = "\<lambda>s'. if prefix (str ''**'') s'
                 then Some (drop 2 s', [take (length s - length (drop 2 s')) s]) else None"
  have "match_at boldRegex s = star_lazy (\<lambda>c. \<not> isLineTerminator c) (drop 2 s) ?k"
    using True by (simp add: match_at_def boldRegex_def len cong: if_cong)
  also have "\<dots> = (case closing (drop 2 s) of None \<Rightarrow> None | Some n \<Rightarrow> ?k (drop n (drop 2 s)))"
    by (rule star_lazy_closing) simp_all
  also have "\<dots> = (case closing (drop 2 s) of None \<Rightarrow> None
                    | Some n \<Rightarrow> Some (drop (n + 4) s, [take (n + 4) s]))"
  proof (cases "closing (drop 2 s)")
    case None
    then show ?thesis by simp
  next
    case (Some n)
    from closing_bound [OF Some] have b: "n + 2 \<le> length (drop 2 s)"
      and p: "prefix (str ''**'') (drop n (drop 2 s))" by simp_all
    from b have "n + 4 \<le> length s" by simp
    then have t: "length s - (length s - (n + 4)) = n + 4" by simp
    have "2 + (n + 2) = n + 4" by simp
    then have d: "drop 2 (drop n (drop 2 s)) = drop (n + 4) s"
      by (simp only: drop_drop)
    have "?k (drop n (drop 2 s)) = Some (drop (n + 4) s, [take (n + 4) s])"
      using p t by (simp only: d if_True length_drop)
    with Some show ?thesis by simp
  qed
  finally show ?thesis using True by simp
qed

lemma split_loop_boldRegex: "split_loop boldRegex chunk s = pairedSplit chunk s"
proof (induction chunk s rule: pairedSplit.induct)
  case (1 chunk)
  then show ?case by simp
next
  case (2 chunk c cs)
  show ?case
  proof (cases "prefix (str ''**'') (c # cs)")
    case False
    with 2 show ?thesis by (simp add: match_at_boldRegex)
  next
    case True
    show ?thesis
    proof (cases "closing (drop 2 (c # cs))")
      case None
      with True 2 show ?thesis by (simp add: match_at_boldRegex)
    next
      case (Some n)
      have "length (drop (n + 4) (c # cs)) < length (c # cs)" by simp
      with Some True 2 show ?thesis by (simp add: match_at_boldRegex del: length_drop drop_Suc_Cons)
    qed
  qed
qed

lemma split_re_boldRegex: "split_re boldRegex s = pairedSplit [] s"
proof (cases "s = []")
  case True
  then show ?thesis by (simp add: split_re_def match_at_boldRegex str_def)
next
  case False
  then show ?thesis by (simp add: split_re_def split_loop_boldRegex)
qed

lemma concat_pairedSplit: "concat (pairedSplit chunk s) = chunk @ s"
  by (induction chunk s rule: pairedSplit.induct) (auto split: option.splits)

lemma endsWith_suffix: "endsWith s p = suffix p s"
proof
  assume "endsWith s p"
  then have "s = take (length s - length p) s @ p"
    by (metis append_take_drop_id endsWith_def)
  then show "suffix p s" by (metis suffixI)
next
  assume "suffix p s"
  then obtain q where "s = q @ p" by (auto simp: suffix_def)
  then show "endsWith s p" by (simp add: endsWith_def)
qed

lemma slice_stripDelimiters: "slice f 2 (- 2) = stripDelimiters f"
proof -
  have "stripDelimiters f = take (length f - 4) (drop 2 f)"
    using rev_drop [of 2 "rev (drop 2 f)"] by (simp add: stripDelimiters_def)
  moreover have "slice f 2 (- 2) = take (length f - 4) (drop 2 f)"
  proof (cases "4 \<le> length f")
    case True
    then have "nat (int (length f) - 4) = length f - 4" by linarith
    with True show ?thesis by (auto simp: slice_def Let_def min_def max_def)
  next
    case False
    then show ?thesis by (auto simp: slice_def Let_def min_def max_def)
  qed
  ultimately show ?thesis by simp
qed

lemma boldSpans_spanOf: "boldSpans content = map spanOf (split_re boldRegex content)"
  by (simp add: boldSpans_def spanOf_def startsWith_def endsWith_suffix slice_stripDelimiters)

section \<open>The backtracking matcher\<close>

lemma star_greedy_sound:
  "star_greedy p s k = Some x \<Longrightarrow> \<exists>w s'. s = w @ s' \<and> list_all p w \<and> k s' = Some x"
proof (induction s)
  case Nil
  then show ?case by simp
next
  case (Cons c cs)
  show ?case
  proof (cases "p c \<and> star_greedy p cs k = Some x")
    case True
    with Cons.IH obtain w s' where "cs = w @ s'" "list_all p w" "k s' = Some x" by blast
    with True have "c # cs = (c # w) @ s' \<and> list_all p (c # w) \<and> k s' = Some x" by simp
    then show ?thesis by blast
  next
    case False
    with Cons.prems have "k (c # cs) = Some x"
      by (auto split: if_splits option.splits)
    then have "c # cs = [] @ (c # cs) \<and> list_all p [] \<and> k (c # cs) = Some x" by simp
    then show ?thesis by blast
  qed
qed

lemma star_lazy_sound:
  "star_lazy p s k = Some x \<Longrightarrow> \<exists>w s'. s = w @ s' \<and> list_all p w \<and> k s' = Some x"
proof (induction s)
  case Nil
  then show ?case by simp
next
  case (Cons c cs)
  show ?case
  proof (cases "k (c # cs) = Some x")
    case True
    then have "c # cs = [] @ (c # cs) \<and> list_all p [] \<and> k (c # cs) = Some x" by simp
    then show ?thesis by blast
  next
    case False
    with Cons.prems have pc: "p c" and "star_lazy p cs k = Some x"
      by (auto split: if_splits option.splits)
    with Cons.IH obtain w s' where "cs = w @ s'" "list_all p w" "k s' = Some x" by blast
    with pc have "c # cs = (c # w) @ s' \<and> list_all p (c # w) \<and> k s' = Some x" by simp
    then show ?thesis by blast
  qed
qed

lemma matcher_sound:
  "matcher r s caps k = Some x \<Longrightarrow>
   \<exists>w s' cs. s = w @ s' \<and> w \<in> lang r \<and> cs \<in> caplang r \<and> k s' (caps @ cs) = Some x"
proof (induction r arbitrary: s caps k x)
  case (Lit l)
  then have "prefix l s" and "k (drop (length l) s) caps = Some x"
    by (auto split: if_splits)
  then have "s = l @ drop (length l) s \<and> l \<in> lang (Lit l) \<and> [] \<in> caplang (Lit l)
             \<and> k (drop (length l) s) (caps @ []) = Some x"
    by (auto simp: prefix_def)
  then show ?case by blast
next
  case (Cls p)
  then obtain c cs where "s = c # cs" "p c" "k cs caps = Some x"
    by (auto split: list.splits if_splits)
  then have "s = [c] @ cs \<and> [c] \<in> lang (Cls p) \<and> [] \<in> caplang (Cls p)
             \<and> k cs (caps @ []) = Some x"
    by simp
  then show ?case by blast
next
  case (Star p)
  then have "star_greedy p s (\<lambda>s'. k s' caps) = Some x" by simp
  from star_greedy_sound [OF this] show ?case by fastforce
next
  case (StarLazy p)
  then have "star_lazy p s (\<lambda>s'. k s' caps) = Some x" by simp
  from star_lazy_sound [OF this] show ?case by fastforce
next
  case (Seq a b)
  from Seq.prems have "matcher a s caps (\<lambda>s' caps'. matcher b s' caps' k) = Some x" by simp
  from Seq.IH(1) [OF this] obtain w1 s1 c1 where
    a: "s = w1 @ s1" "w1 \<in> lang a" "c1 \<in> caplang a" "matcher b s1 (caps @ c1) k = Some x"
    by blast
  from Seq.IH(2) [OF a(4)] obtain w2 s2 c2 where
    b: "s1 = w2 @ s2" "w2 \<in> lang b" "c2 \<in> caplang b" "k s2 ((caps @ c1) @ c2) = Some x"
    by blast
  from a b have "s = (w1 @ w2) @ s2 \<and> w1 @ w2 \<in> lang (Seq a b)
      \<and> c1 @ c2 \<in> caplang (Seq a b) \<and> k s2 (caps @ c1 @ c2) = Some x"
    by auto
  then show ?case by blast
next
  case (Grp r)
  from Grp.prems have
    "matcher r s caps (\<lambda>s' caps'. k s' (caps' @ [take (length s - length s') s])) = Some x"
    by simp
  from Grp.IH [OF this] obtain w s' cs where
    g: "s = w @ s'" "w \<in> lang r" "cs \<in> caplang r"
       "k s' ((caps @ cs) @ [take (length s - length s') s]) = Some x"
    by blast
  from g(1) have "take (length s - length s') s = w" by simp
  with g have "s = w @ s' \<and> w \<in> lang (Grp r) \<and> cs @ [w] \<in> caplang (Grp r)
      \<and> k s' (caps @ cs @ [w]) = Some x"
    by auto
  then show ?case by blast
qed

lemma star_greedy_complete:
  "list_all p w \<Longrightarrow> k s' \<noteq> None \<Longrightarrow> star_greedy p (w @ s') k \<noteq> None"
proof (induction w)
  case Nil
  then show ?case by (cases s') (auto split: option.splits)
next
  case (Cons c w)
  then show ?case by (auto split: option.splits)
qed

lemma star_lazy_complete:
  "list_all p w \<Longrightarrow> k s' \<noteq> None \<Longrightarrow> star_lazy p (w @ s') k \<noteq> None"
proof (induction w)
  case Nil
  then show ?case by (cases s') (auto split: option.splits)
next
  case (Cons c w)
  then show ?case by (auto split: option.splits)
qed

lemma matcher_complete:
  "w \<in> lang r \<Longrightarrow> (\<And>caps'. k s' caps' \<noteq> None) \<Longrightarrow> matcher r (w @ s') caps k \<noteq> None"
proof (induction r arbitrary: w s' caps k)
  case (Lit l)
  then show ?case by simp
next
  case (Cls p)
  then show ?case by auto
next
  case (Star p)
  then show ?case using star_greedy_complete [of p w "\<lambda>s'. k s' caps" s'] by simp
next
  case (StarLazy p)
  then show ?case using star_lazy_complete [of p w "\<lambda>s'. k s' caps" s'] by simp
next
  case (Seq a b)
  from Seq.prems(1) obtain u v where w: "w = u @ v" "u \<in> lang a" "v \<in> lang b" by auto
  have "matcher b (v @ s') caps' k \<noteq> None" for caps'
    using Seq.IH(2) [OF w(3)] Seq.prems(2) by blast
  then have "matcher a (u @ (v @ s')) caps (\<lambda>s'' caps''. matcher b s'' caps'' k) \<noteq> None"
    by (rule Seq.IH(1) [OF w(2), of "\<lambda>s'' caps''. matcher b s'' caps'' k" "v @ s'" caps])
  with w(1) show ?case by simp
next
  case (Grp r)
  then show ?case by simp
qed

lemma match_at_sound:
  "match_at r s = Some (rest, caps) \<Longrightarrow> \<exists>w. s = w @ rest \<and> w \<in> lang r \<and> caps \<in> caplang r"
  unfolding match_at_def by (drule matcher_sound) auto

lemma match_at_complete: "w \<in> lang r \<Longrightarrow> match_at r (w @ t) \<noteq> None"
  unfolding match_at_def by (rule matcher_complete) simp_all

lemma regex_exec_Some:
  "regex_exec r s = Some m \<Longrightarrow>
     index m \<le> length s \<and> prefix (whole m) (drop (index m) s) \<and> whole m \<in> lang r
     \<and> groups m \<in> caplang r \<and> (\<forall>j<index m. match_at r (drop j s) = None)"
proof (induction s arbitrary: m)
  case Nil
  then obtain rest caps where ma: "match_at r [] = Some (rest, caps)"
    and m: "m = \<lparr>index = 0, whole = [], groups = caps\<rparr>"
    by (auto split: option.splits)
  from match_at_sound [OF ma] m show ?case by auto
next
  case (Cons c cs)
  show ?case
  proof (cases "match_at r (c # cs)")
    case (Some a)
    obtain rest caps where a: "a = (rest, caps)" by (cases a)
    from match_at_sound [OF Some [unfolded a]] obtain w where
      w: "c # cs = w @ rest" "w \<in> lang r" "caps \<in> caplang r" by blast
    from w(1) have "take (length (c # cs) - length rest) (c # cs) = w"
      by (metis add_diff_cancel_right' append_eq_conv_conj length_append)
    with Cons.prems Some a have m: "m = \<lparr>index = 0, whole = w, groups = caps\<rparr>" by simp
    with w show ?thesis by (simp add: prefix_def)
  next
    case None
    with Cons.prems obtain m' where m': "regex_exec r cs = Some m'"
      and m: "m = m'\<lparr>index := Suc (index m')\<rparr>"
      by (auto split: option.splits)
    from Cons.IH [OF m'] have ih: "index m' \<le> length cs" "prefix (whole m') (drop (index m') cs)"
      "whole m' \<in> lang r" "groups m' \<in> caplang r" "\<forall>j<index m'. match_at r (drop j cs) = None"
      by simp_all
    have "match_at r (drop j (c # cs)) = None" if "j < Suc (index m')" for j
      using that None ih(5) by (cases j) simp_all
    with ih m show ?thesis by simp
  qed
qed

lemma replace_first_at:
  "i \<le> length s \<Longrightarrow> prefix w (drop i s) \<Longrightarrow> (\<And>j. j < i \<Longrightarrow> \<not> prefix w (drop j s)) \<Longrightarrow>
   replace_first w rep s = take i s @ rep @ drop (i + length w) s"
proof (induction s arbitrary: i)
  case Nil
  then show ?case by simp
next
  case (Cons c cs)
  show ?case
  proof (cases i)
    case 0
    with Cons.prems(2) show ?thesis by simp
  next
    case (Suc i')
    from Cons.prems(3) [of 0] Suc have np: "\<not> prefix w (c # cs)" by simp
    have "\<not> prefix w (drop j cs)" if "j < i'" for j
      using Cons.prems(3) [of "Suc j"] that Suc by simp
    with Cons.IH [of i'] Cons.prems(1,2) Suc
    have "replace_first w rep cs = take i' cs @ rep @ drop (i' + length w) cs" by simp
    with np Suc show ?thesis by simp
  qed
qed

lemma regex_exec_replace_first:
  assumes "regex_exec r s = Some m"
  shows "replace_first (whole m) rep s =
         take (index m) s @ rep @ drop (index m + length (whole m)) s"
proof -
  from regex_exec_Some [OF assms] have i: "index m \<le> length s"
    and p: "prefix (whole m) (drop (index m) s)" and l: "whole m \<in> lang r"
    and n: "\<forall>j<index m. match_at r (drop j s) = None" by simp_all
  have "\<not> prefix (whole m) (drop j s)" if "j < index m" for j
  proof
    assume "prefix (whole m) (drop j s)"
    then obtain t where t: "drop j s = whole m @ t" by (auto simp: prefix_def)
    from match_at_complete [OF l, of t] have "match_at r (drop j s) \<noteq> None"
      by (simp add: t)
    moreover from n that have "match_at r (drop j s) = None" by blast
    ultimately show False by contradiction
  qed
  with i p show ?thesis by (rule replace_first_at)
qed

section \<open>Separators, trimming and parsed objects\<close>

lemma match_at_Lit:
  "match_at (Lit l) s = (if prefix l s then Some (drop (length l) s, []) else None)"
  by (simp add: match_at_def)

lemma separator_chars: "separatorRegex = Lit (replicate 50 0x2D)"
  by (simp add: separatorRegex_def str_def eval_nat_numeral)

lemma dash_not_space: "\<not> isWhiteSpace 0x2D"
  by (simp add: isWhiteSpace_def)

lemma separator_prefix_space:
  "isWhiteSpace c \<Longrightarrow> \<not> prefix (replicate 50 0x2D) (c # s)"
  using dash_not_space by (auto simp: eval_nat_numeral)

lemma separator_leading:
  "list_all isWhiteSpace w \<Longrightarrow>
   replace_all separatorRegex [] (w @ s) = w @ replace_all separatorRegex [] s"
  by (induction w) (auto simp: separator_chars match_at_Lit separator_prefix_space)

lemma separator_prefix_append:
  assumes "list_all isWhiteSpace w"
  shows "prefix (replicate 50 0x2D) (s @ w) = prefix (replicate 50 0x2D) s"
proof
  assume "prefix (replicate 50 0x2D) s"
  then show "prefix (replicate 50 0x2D) (s @ w)" by (simp add: prefix_prefix)
next
  assume "prefix (replicate 50 0x2D) (s @ w)"
  then consider "prefix (replicate 50 0x2D) s"
    | us where "replicate 50 0x2D = s @ us" "prefix us w"
    by (auto simp: prefix_append)
  then show "prefix (replicate 50 0x2D) s"
  proof cases
    case 1
    then show ?thesis .
  next
    case 2
    show ?thesis
    proof (cases us)
      case Nil
      with 2 show ?thesis by simp
    next
      case (Cons u us')
      with 2(2) obtain w' where "w = u # w'" by (cases w) auto
      with assms have "isWhiteSpace u" by simp
      moreover have "u \<in> set (replicate 50 (0x2D :: code_unit))"
        unfolding 2(1) Cons by simp
      then have "u = 0x2D" by simp
      ultimately show ?thesis using dash_not_space by simp
    qed
  qed
qed

lemma separator_trailing:
  "list_all isWhiteSpace w \<Longrightarrow>
   replace_all separatorRegex [] (s @ w) = replace_all separatorRegex [] s @ w"
proof (induction s rule: length_induct)
  case (1 s)
  show ?case
  proof (cases s)
    case Nil
    then show ?thesis
      using separator_leading [OF 1(2), of "[]"]
      by (simp add: separator_chars match_at_Lit)
  next
    case (Cons c cs)
    show ?thesis
    proof (cases "prefix (replicate 50 0x2D) s")
      case True
      then have len: "50 \<le> length s"
        using prefix_length_le by fastforce
      then have d: "drop 50 (s @ w) = drop 50 s @ w" by simp
      have "length (drop 50 s) < length s" using Cons by simp
      with 1 have ih: "replace_all separatorRegex [] (drop 50 s @ w) =
                       replace_all separatorRegex [] (drop 50 s) @ w"
        by blast
      have "replace_all separatorRegex [] (s @ w) = replace_all separatorRegex [] (drop 50 (s @ w))"
        using True separator_prefix_append [OF 1(2), of s] Cons
        by (simp add: separator_chars match_at_Lit del: drop_append)
      also have "\<dots> = replace_all separatorRegex [] (drop 50 s) @ w"
        by (simp only: d ih)
      also have "replace_all separatorRegex [] (drop 50 s) = replace_all separatorRegex [] s"
        using True Cons
        by (simp add: separator_chars match_at_Lit)
      finally show ?thesis .
    next
      case False
      with separator_prefix_append [OF 1(2), of s]
      have nf: "\<not> prefix (replicate 50 0x2D) (s @ w)" by simp
      have "length cs < length s" using Cons by simp
      with 1 have ih: "replace_all separatorRegex [] (cs @ w) =
                       replace_all separatorRegex [] cs @ w"
        by blast
      from False nf ih show ?thesis
        unfolding Cons
        by (simp add: separator_chars match_at_Lit)
    qed
  qed
qed

lemma trim_decompose:
  "\<exists>w1 w2. list_all isWhiteSpace w1 \<and> list_all isWhiteSpace w2 \<and> s = w1 @ trim s @ w2"
proof -
  let ?d = "dropWhile isWhiteSpace s"
  let ?r = "rev ?d"
  have "s = takeWhile isWhiteSpace s @ ?d" by simp
  moreover have "?d = rev (dropWhile isWhiteSpace ?r) @ rev (takeWhile isWhiteSpace ?r)"
    by (metis rev_append rev_rev_ident takeWhile_dropWhile_id)
  ultimately have "s = takeWhile isWhiteSpace s @ trim s @ rev (takeWhile isWhiteSpace ?r)"
    by (simp add: trim_def)
  moreover have "list_all isWhiteSpace (takeWhile isWhiteSpace s)"
    by (simp add: list_all_iff) (meson set_takeWhileD)
  moreover have "list_all isWhiteSpace (rev (takeWhile isWhiteSpace ?r))"
    by (simp add: list_all_iff) (meson set_takeWhileD)
  ultimately show ?thesis by blast
qed

lemma dropWhile_all: "list_all P w \<Longrightarrow> dropWhile P (w @ z) = dropWhile P z"
  by (induction w) auto

lemma trim_padding:
  assumes "list_all isWhiteSpace w1" and "list_all isWhiteSpace w2"
  shows "trim (w1 @ z @ w2) = trim z"
proof -
  have a: "dropWhile isWhiteSpace (w1 @ z @ w2) = dropWhile isWhiteSpace (z @ w2)"
    using assms(1) by (rule dropWhile_all)
  have r: "list_all isWhiteSpace (rev w2)"
    using assms(2) by (simp add: list_all_iff)
  show ?thesis
  proof (cases "list_all isWhiteSpace z")
    case True
    then have "list_all isWhiteSpace (z @ w2)" using assms(2) by simp
    then have "dropWhile isWhiteSpace (z @ w2) = []"
      unfolding dropWhile_eq_Nil_conv list_all_iff .
    moreover from True have "dropWhile isWhiteSpace z = []"
      unfolding dropWhile_eq_Nil_conv list_all_iff .
    ultimately show ?thesis by (simp only: trim_def a)
  next
    case False
    then have "\<exists>x\<in>set z. \<not> isWhiteSpace x" by (simp add: list_all_iff)
    then have "dropWhile isWhiteSpace (z @ w2) = dropWhile isWhiteSpace z @ w2"
      by (metis dropWhile_append1)
    then have "rev (dropWhile isWhiteSpace (z @ w2)) = rev w2 @ rev (dropWhile isWhiteSpace z)"
      by simp
    then have "dropWhile isWhiteSpace (rev (dropWhile isWhiteSpace (z @ w2)))
               = dropWhile isWhiteSpace (rev (dropWhile isWhiteSpace z))"
      using dropWhile_all [OF r] by simp
    then show ?thesis by (simp add: trim_def a)
  qed
qed

lemma trim_separator_trim:
  "trim (replace_all separatorRegex [] (trim s)) = trim (replace_all separatorRegex [] s)"
proof -
  from trim_decompose [of s] obtain w1 w2 where
    w: "list_all isWhiteSpace w1" "list_all isWhiteSpace w2" and s: "s = w1 @ trim s @ w2"
    by blast
  have "replace_all separatorRegex [] (w1 @ (trim s @ w2))
        = w1 @ replace_all separatorRegex [] (trim s) @ w2"
    by (simp only: separator_leading [OF w(1)] separator_trailing [OF w(2)])
  then have "trim (replace_all separatorRegex [] (w1 @ trim s @ w2))
        = trim (replace_all separatorRegex [] (trim s))"
    by (simp only: trim_padding [OF w])
  with s show ?thesis by simp
qed

lemma replace_all_separator_Nil: "replace_all separatorRegex [] [] = []"
  by (simp add: separator_chars match_at_Lit)

lemma replace_all_separator_Cons:
  "replace_all separatorRegex [] (c # cs) =
     (if prefix (replicate 50 0x2D) (c # cs) then replace_all separatorRegex [] (drop 50 (c # cs))
      else c # replace_all separatorRegex [] cs)"
proof -
  have "length (drop 50 (c # cs)) < length (c # cs)" by simp
  then show ?thesis
    by (simp add: separator_chars match_at_Lit del: length_drop drop_Suc_Cons)
qed

lemma takeWhile_replicate_append:
  "P x \<Longrightarrow> takeWhile P (replicate n x @ t) = replicate n x @ takeWhile P t"
  by (induction n) simp_all

lemma prefix_separator_leading: "prefix (replicate 50 0x2D) s \<longleftrightarrow> 50 \<le> leadingDashes s"
proof
  assume "prefix (replicate 50 0x2D) s"
  then obtain t where "s = replicate 50 0x2D @ t" by (auto simp: prefix_def)
  then have "takeWhile (\<lambda>c. c = 0x2D) s = replicate 50 0x2D @ takeWhile (\<lambda>c. c = 0x2D) t"
    by (simp only: takeWhile_replicate_append)
  then show "50 \<le> leadingDashes s" by (simp add: leadingDashes_def)
next
  assume a: "50 \<le> leadingDashes s"
  let ?t = "takeWhile (\<lambda>c. c = (0x2D :: code_unit)) s"
  have all: "\<forall>x\<in>set ?t. x = 0x2D" by (meson set_takeWhileD)
  have tk: "take 50 ?t = replicate 50 0x2D"
  proof (rule replicate_eqI)
    show "length (take 50 ?t) = 50" using a by (simp add: leadingDashes_def)
    show "\<And>y. y \<in> set (take 50 ?t) \<Longrightarrow> y = 0x2D" using all by (meson in_set_takeD)
  qed
  have p1: "prefix (take 50 ?t) ?t" by (rule take_is_prefix)
  have "s = ?t @ dropWhile (\<lambda>c. c = 0x2D) s" by simp
  then have p2: "prefix ?t s" by (rule prefixI)
  from p1 p2 have "prefix (take 50 ?t) s" by (rule prefix_order.trans)
  then show "prefix (replicate 50 0x2D) s" by (simp only: tk)
qed

lemma leadingDashes_drop:
  "50 \<le> leadingDashes s \<Longrightarrow> leadingDashes (drop 50 s) = leadingDashes s - 50"
proof -
  assume "50 \<le> leadingDashes s"
  then have "prefix (replicate 50 0x2D) s" by (simp add: prefix_separator_leading)
  then obtain t where s: "s = replicate 50 0x2D @ t" by (auto simp: prefix_def)
  then have "takeWhile (\<lambda>c. c = 0x2D) s = replicate 50 0x2D @ takeWhile (\<lambda>c. c = 0x2D) t"
    by (simp only: takeWhile_replicate_append)
  then show ?thesis by (simp add: leadingDashes_def s)
qed

lemma leadingDashes_replace_all:
  "leadingDashes (replace_all separatorRegex [] s) = leadingDashes s mod 50"
proof (induction s rule: length_induct)
  case (1 s)
  show ?case
  proof (cases s)
    case Nil
    show ?thesis
      unfolding Nil replace_all_separator_Nil by (simp add: leadingDashes_def)
  next
    case (Cons c cs)
    show ?thesis
    proof (cases "prefix (replicate 50 0x2D) s")
      case True
      then have ge: "50 \<le> leadingDashes s" by (simp only: prefix_separator_leading)
      have eq: "replace_all separatorRegex [] s = replace_all separatorRegex [] (drop 50 s)"
        using True unfolding Cons by (simp only: replace_all_separator_Cons if_True)
      have "length (drop 50 s) < length s" using Cons by simp
      with 1 have "leadingDashes (replace_all separatorRegex [] (drop 50 s))
                   = leadingDashes (drop 50 s) mod 50" by blast
      also have "\<dots> = (leadingDashes s - 50) mod 50"
        by (simp only: leadingDashes_drop [OF ge])
      also have "\<dots> = leadingDashes s mod 50" using ge by (simp add: le_mod_geq)
      finally show ?thesis unfolding eq .
    next
      case False
      then have lt: "leadingDashes s < 50" by (simp only: prefix_separator_leading not_le)
      have eq: "replace_all separatorRegex [] s = c # replace_all separatorRegex [] cs"
        using False unfolding Cons by (simp only: replace_all_separator_Cons if_False)
      show ?thesis
      proof (cases "c = 0x2D")
        case False
        then have "leadingDashes (c # replace_all separatorRegex [] cs) = 0"
          and "leadingDashes s = 0"
          unfolding Cons leadingDashes_def by simp_all
        then show ?thesis unfolding eq by simp
      next
        case True
        have "length cs < length s" using Cons by simp
        with 1 have ih: "leadingDashes (replace_all separatorRegex [] cs) = leadingDashes cs mod 50"
          by blast
        from True have s: "leadingDashes s = Suc (leadingDashes cs)"
          unfolding Cons leadingDashes_def by simp
        with lt have m: "leadingDashes cs mod 50 = leadingDashes cs" by simp
        have "leadingDashes (c # replace_all separatorRegex [] cs)
              = Suc (leadingDashes (replace_all separatorRegex [] cs))"
          using True unfolding leadingDashes_def by simp
        also have "\<dots> = leadingDashes s" unfolding ih m s ..
        also have "\<dots> = leadingDashes s mod 50" using lt by simp
        finally show ?thesis unfolding eq .
      qed
    qed
  qed
qed

lemma separator_gone: "\<not> sublist (replicate 50 0x2D) (replace_all separatorRegex [] s)"
proof (induction s rule: length_induct)
  case (1 s)
  show ?case
  proof (cases s)
    case Nil
    show ?thesis
      unfolding Nil replace_all_separator_Nil by simp
  next
    case (Cons c cs)
    show ?thesis
    proof (cases "prefix (replicate 50 0x2D) s")
      case True
      have eq: "replace_all separatorRegex [] s = replace_all separatorRegex [] (drop 50 s)"
        using True unfolding Cons by (simp only: replace_all_separator_Cons if_True)
      have "length (drop 50 s) < length s" using Cons by simp
      with 1 have "\<not> sublist (replicate 50 0x2D) (replace_all separatorRegex [] (drop 50 s))"
        by blast
      then show ?thesis unfolding eq .
    next
      case False
      have eq: "replace_all separatorRegex [] s = c # replace_all separatorRegex [] cs"
        using False unfolding Cons by (simp only: replace_all_separator_Cons if_False)
      have "length cs < length s" using Cons by simp
      with 1 have ih: "\<not> sublist (replicate 50 0x2D) (replace_all separatorRegex [] cs)"
        by blast
      have "leadingDashes (replace_all separatorRegex [] s) < 50"
        unfolding leadingDashes_replace_all by simp
      then have "\<not> prefix (replicate 50 0x2D) (c # replace_all separatorRegex [] cs)"
        unfolding prefix_separator_leading eq by simp
      with ih have "\<not> sublist (replicate 50 0x2D) (c # replace_all separatorRegex [] cs)"
        unfolding sublist_Cons_right by blast
      then show ?thesis unfolding eq .
    qed
  qed
qed

lemma separator_gone_trim:
  "\<not> sublist (replicate 50 0x2D) (trim (replace_all separatorRegex [] s))"
proof
  assume a: "sublist (replicate 50 0x2D) (trim (replace_all separatorRegex [] s))"
  from trim_decompose [of "replace_all separatorRegex [] s"] obtain w1 w2 where
    "replace_all separatorRegex [] s = w1 @ trim (replace_all separatorRegex [] s) @ w2"
    by blast
  then have "sublist (trim (replace_all separatorRegex [] s)) (replace_all separatorRegex [] s)"
    by (metis sublist_appendI)
  with a have "sublist (replicate 50 0x2D) (replace_all separatorRegex [] s)"
    by (metis sublist_order.order_trans)
  with separator_gone show False by blast
qed

lemma separator_literal:
  "str ''--------------------------------------------------'' = replicate 50 0x2D"
  by (simp add: str_def eval_nat_numeral)

lemma JSON_parse_object:
  "JSON_parse (0x7B # t) = Some v \<Longrightarrow> \<exists>kvs. v = JObj kvs"
  by (auto simp: JSON_parse_def isJSONWhiteSpace_def split: option.splits list.splits if_splits)

lemma jsonRegex_groups:
  "gs \<in> caplang jsonRegex \<Longrightarrow> \<exists>t. gs = [0x7B # t]"
  by (auto simp: jsonRegex_def str_def)

section \<open>The three outcomes of the extraction\<close>

lemma extract_no_match:
  "regex_exec jsonRegex raw = None \<Longrightarrow>
   extractSentiment raw = \<lparr>cleanText = raw, sentimentData = JNull, logged = []\<rparr>"
  by (simp add: extractSentiment_def)

lemma extract_parse_failure:
  assumes "regex_exec jsonRegex raw = Some m" and "map JSON_parse (groups m) = [None]"
  shows "extractSentiment raw = \<lparr>cleanText = raw, sentimentData = JNull,
           logged = [str ''Failed to parse hidden sentiment JSON'']\<rparr>"
proof -
  from regex_exec_Some [OF assms(1)] have "groups m \<in> caplang jsonRegex" by simp
  then obtain t where g: "groups m = [0x7B # t]" using jsonRegex_groups by blast
  with assms(2) have "JSON_parse (0x7B # t) = None" by simp
  with assms(1) g show ?thesis by (simp add: extractSentiment_def)
qed

lemma extract_parsed:
  assumes "regex_exec jsonRegex raw = Some m" and "map JSON_parse (groups m) = [Some parsed]"
  shows "\<exists>d. get_sentiment_distribution parsed = Some d \<and>
           extractSentiment raw =
             \<lparr>cleanText = trim (replace_all separatorRegex []
                  (take (index m) raw @ drop (index m + length (whole m)) raw)),
              sentimentData = (if truthy d then d else JNull), logged = []\<rparr>"
proof -
  from regex_exec_Some [OF assms(1)] have "groups m \<in> caplang jsonRegex" by simp
  then obtain t where g: "groups m = [0x7B # t]" using jsonRegex_groups by blast
  with assms(2) have p: "JSON_parse (0x7B # t) = Some parsed" by simp
  from JSON_parse_object [OF p] obtain kvs where kvs: "parsed = JObj kvs" by blast
  then obtain d where d: "get_sentiment_distribution parsed = Some d" by simp
  have "replace_first (whole m) [] raw = take (index m) raw @ drop (index m + length (whole m)) raw"
    using regex_exec_replace_first [OF assms(1), of "[]"] by simp
  with assms(1) g p d have "extractSentiment raw =
             \<lparr>cleanText = trim (replace_all separatorRegex []
                  (take (index m) raw @ drop (index m + length (whole m)) raw)),
              sentimentData = (if truthy d then d else JNull), logged = []\<rparr>"
    by (simp add: extractSentiment_def trim_separator_trim)
  with d show ?thesis by blast
qed

section \<open>Fenced blocks and backticks\<close>

lemma list_all_anyChar: "list_all anyChar w"
  by (simp add: anyChar_def list_all_iff)

lemma lang_SeqE:
  "w \<in> lang (Seq a b) \<Longrightarrow> (\<And>u v. w = u @ v \<Longrightarrow> u \<in> lang a \<Longrightarrow> v \<in> lang b \<Longrightarrow> P) \<Longrightarrow> P"
  by auto

lemma lang_SeqI: "u \<in> lang a \<Longrightarrow> v \<in> lang b \<Longrightarrow> u @ v \<in> lang (Seq a b)"
  by auto

lemma lang_block:
  "w \<in> lang (Seq (Lit l1) (Seq (Star p) (Seq (Grp (Seq (Lit l2) (Seq (StarLazy q)
       (Seq (Lit l3) (Seq (StarLazy q) (Lit l4)))))) (Seq (Star p) (Lit l5)))))
   \<longleftrightarrow> (\<exists>w1 a b w2. list_all p w1 \<and> list_all p w2 \<and> list_all q a \<and> list_all q b \<and>
          w = l1 @ w1 @ l2 @ a @ l3 @ b @ l4 @ w2 @ l5)"
proof
  assume "w \<in> lang (Seq (Lit l1) (Seq (Star p) (Seq (Grp (Seq (Lit l2) (Seq (StarLazy q)
       (Seq (Lit l3) (Seq (StarLazy q) (Lit l4)))))) (Seq (Star p) (Lit l5)))))"
  then obtain u1 v1 where 1: "w = u1 @ v1" "u1 \<in> lang (Lit l1)"
      "v1 \<in> lang (Seq (Star p) (Seq (Grp (Seq (Lit l2) (Seq (StarLazy q)
         (Seq (Lit l3) (Seq (StarLazy q) (Lit l4)))))) (Seq (Star p) (Lit l5))))"
    by (rule lang_SeqE)
  from 1(3) obtain u2 v2 where 2: "v1 = u2 @ v2" "u2 \<in> lang (Star p)"
      "v2 \<in> lang (Seq (Grp (Seq (Lit l2) (Seq (StarLazy q)
         (Seq (Lit l3) (Seq (StarLazy q) (Lit l4)))))) (Seq (Star p) (Lit l5)))"
    by (rule lang_SeqE)
  from 2(3) obtain g v3 where 3: "v2 = g @ v3"
      "g \<in> lang (Grp (Seq (Lit l2) (Seq (StarLazy q) (Seq (Lit l3) (Seq (StarLazy q) (Lit l4))))))"
      "v3 \<in> lang (Seq (Star p) (Lit l5))"
    by (rule lang_SeqE)
  from 3(3) obtain u4 v4 where 4: "v3 = u4 @ v4" "u4 \<in> lang (Star p)" "v4 \<in> lang (Lit l5)"
    by (rule lang_SeqE)
  from 3(2) have "g \<in> lang (Seq (Lit l2) (Seq (StarLazy q) (Seq (Lit l3) (Seq (StarLazy q) (Lit l4)))))"
    by (simp only: lang.simps(6))
  then obtain u5 v5 where 5: "g = u5 @ v5" "u5 \<in> lang (Lit l2)"
      "v5 \<in> lang (Seq (StarLazy q) (Seq (Lit l3) (Seq (StarLazy q) (Lit l4))))"
    by (rule lang_SeqE)
  from 5(3) obtain u6 v6 where 6: "v5 = u6 @ v6" "u6 \<in> lang (StarLazy q)"
      "v6 \<in> lang (Seq (Lit l3) (Seq (StarLazy q) (Lit l4)))"
    by (rule lang_SeqE)
  from 6(3) obtain u7 v7 where 7: "v6 = u7 @ v7" "u7 \<in> lang (Lit l3)"
      "v7 \<in> lang (Seq (StarLazy q) (Lit l4))"
    by (rule lang_SeqE)
  from 7(3) obtain u8 v8 where 8: "v7 = u8 @ v8" "u8 \<in> lang (StarLazy q)" "v8 \<in> lang (Lit l4)"
    by (rule lang_SeqE)
  have "list_all p u2 \<and> list_all p u4 \<and> list_all q u6 \<and> list_all q u8
        \<and> w = l1 @ u2 @ l2 @ u6 @ l3 @ u8 @ l4 @ u4 @ l5"
    using 1(1,2) 2(1,2) 3(1) 4 5(1,2) 6(1,2) 7(1,2) 8 by simp
  then show "\<exists>w1 a b w2. list_all p w1 \<and> list_all p w2 \<and> list_all q a \<and> list_all q b \<and>
          w = l1 @ w1 @ l2 @ a @ l3 @ b @ l4 @ w2 @ l5"
    by blast
next
  assume "\<exists>w1 a b w2. list_all p w1 \<and> list_all p w2 \<and> list_all q a \<and> list_all q b \<and>
          w = l1 @ w1 @ l2 @ a @ l3 @ b @ l4 @ w2 @ l5"
  then obtain w1 a b w2 where h: "list_all p w1" "list_all p w2" "list_all q a" "list_all q b"
    "w = l1 @ w1 @ l2 @ a @ l3 @ b @ l4 @ w2 @ l5" by blast
  have p1: "w1 \<in> lang (Star p)" and p2: "w2 \<in> lang (Star p)"
    and q1: "a \<in> lang (StarLazy q)" and q2: "b \<in> lang (StarLazy q)"
    using h(1-4) by simp_all
  have l: "\<And>l. l \<in> lang (Lit l)" by simp
  have "l2 @ a @ l3 @ b @ l4
      \<in> lang (Seq (Lit l2) (Seq (StarLazy q) (Seq (Lit l3) (Seq (StarLazy q) (Lit l4)))))"
    by (intro lang_SeqI l q1 q2)
  then have "l2 @ a @ l3 @ b @ l4
      \<in> lang (Grp (Seq (Lit l2) (Seq (StarLazy q) (Seq (Lit l3) (Seq (StarLazy q) (Lit l4))))))"
    by (simp only: lang.simps(6))
  then have "l1 @ w1 @ (l2 @ a @ l3 @ b @ l4) @ w2 @ l5
      \<in> lang (Seq (Lit l1) (Seq (Star p) (Seq (Grp (Seq (Lit l2) (Seq (StarLazy q) (Seq (Lit l3)
           (Seq (StarLazy q) (Lit l4)))))) (Seq (Star p) (Lit l5)))))"
    by (intro lang_SeqI l p1 p2)
  then show "w \<in> lang (Seq (Lit l1) (Seq (Star p) (Seq (Grp (Seq (Lit l2) (Seq (StarLazy q)
       (Seq (Lit l3) (Seq (StarLazy q) (Lit l4)))))) (Seq (Star p) (Lit l5)))))"
    using h(5) by (simp only: append_assoc)
qed

lemma fencedBlock_lang: "fencedBlock w \<longleftrightarrow> w \<in> lang jsonRegex"
  unfolding fencedBlock_def jsonRegex_def lang_block by (simp add: list_all_anyChar)

lemma regex_exec_complete: "w \<in> lang r \<Longrightarrow> regex_exec r (pre @ w @ post) \<noteq> None"
proof (induction pre)
  case Nil
  from match_at_complete [OF Nil, of post] obtain rest caps
    where m: "match_at r (w @ post) = Some (rest, caps)" by auto
  show ?case
  proof (cases "w @ post")
    case Nil
    with m show ?thesis by simp
  next
    case (Cons c cs)
    with m show ?thesis by simp
  qed
next
  case (Cons c cs)
  then have "regex_exec r (cs @ w @ post) \<noteq> None" by simp
  then show ?case by (auto split: option.splits)
qed

lemma containsFencedBlock_iff: "containsFencedBlock raw \<longleftrightarrow> regex_exec jsonRegex raw \<noteq> None"
proof
  assume "containsFencedBlock raw"
  then obtain pre w post where "raw = pre @ w @ post" "w \<in> lang jsonRegex"
    unfolding containsFencedBlock_def fencedBlock_lang by blast
  then show "regex_exec jsonRegex raw \<noteq> None"
    using regex_exec_complete by blast
next
  assume "regex_exec jsonRegex raw \<noteq> None"
  then obtain m where m: "regex_exec jsonRegex raw = Some m" by blast
  from regex_exec_Some [OF m] have p: "prefix (whole m) (drop (index m) raw)"
    and l: "whole m \<in> lang jsonRegex" by simp_all
  from p obtain post where "drop (index m) raw = whole m @ post" by (auto simp: prefix_def)
  then have "raw = take (index m) raw @ whole m @ post"
    by (metis append_take_drop_id)
  with l show "containsFencedBlock raw"
    unfolding containsFencedBlock_def fencedBlock_lang by blast
qed

lemma set_trim: "set (trim s) \<subseteq> set s"
proof -
  have "set (trim s) \<subseteq> set (dropWhile isWhiteSpace s)"
    unfolding trim_def using set_dropWhileD by fastforce
  also have "\<dots> \<subseteq> set s" using set_dropWhileD by fastforce
  finally show ?thesis .
qed

lemma set_replace_all_separator: "set (replace_all separatorRegex [] s) \<subseteq> set s"
proof (induction s rule: length_induct)
  case (1 s)
  show ?case
  proof (cases s)
    case Nil
    then show ?thesis by (simp add: replace_all_separator_Nil del: replace_all.simps)
  next
    case (Cons c cs)
    show ?thesis
    proof (cases "prefix (replicate 50 0x2D) (c # cs)")
      case True
      have "length (drop 50 (c # cs)) < length s" using Cons by simp
      with 1 have "set (replace_all separatorRegex [] (drop 50 (c # cs))) \<subseteq> set (drop 50 (c # cs))"
        by blast
      also have "\<dots> \<subseteq> set (c # cs)" by (rule set_drop_subset)
      finally show ?thesis using True Cons
        by (simp only: replace_all_separator_Cons if_True)
    next
      case False
      have "length cs < length s" using Cons by simp
      with 1 have "set (replace_all separatorRegex [] cs) \<subseteq> set cs" by blast
      then show ?thesis using False Cons
        by (auto simp only: replace_all_separator_Cons if_False list.set)
    qed
  qed
qed

lemma lang_jsonRegex_backtick: "w \<in> lang jsonRegex \<Longrightarrow> 0x60 \<in> set w"
proof -
  have "0x60 \<in> set (str ''```json'')" by (simp add: str_def)
  moreover assume "w \<in> lang jsonRegex"
  ultimately show ?thesis
    unfolding fencedBlock_lang [symmetric] fencedBlock_def by auto
qed

lemma no_backtick_no_match: "0x60 \<notin> set s \<Longrightarrow> regex_exec jsonRegex s = None"
proof (rule ccontr)
  assume n: "0x60 \<notin> set s" and "regex_exec jsonRegex s \<noteq> None"
  then obtain m where m: "regex_exec jsonRegex s = Some m" by blast
  from regex_exec_Some [OF m] have p: "prefix (whole m) (drop (index m) s)"
    and l: "whole m \<in> lang jsonRegex" by simp_all
  from p have "set (whole m) \<subseteq> set (drop (index m) s)" by (rule set_mono_prefix)
  also have "\<dots> \<subseteq> set s" by (rule set_drop_subset)
  finally show False using lang_jsonRegex_backtick [OF l] n by blast
qed

lemma cleaned_no_backtick:
  "0x60 \<notin> set a \<Longrightarrow> 0x60 \<notin> set b \<Longrightarrow>
   0x60 \<notin> set (trim (replace_all separatorRegex [] (a @ b)))"
  using set_trim [of "replace_all separatorRegex [] (a @ b)"]
    set_replace_all_separator [of "a @ b"] by auto

section \<open>Extraction: C1, C2, C3, C4, C10\<close>

text \<open>
  C1, as the code has it. Let the fenced-block expression match the raw report (\<open>m\<close>) and
  let the captured text parse as JSON (\<open>parsed\<close>). Then \<open>cleanText\<close> is the raw text with
  the matched block taken out at the index of the match, every fifty-dash separator
  removed, and the surrounding white space trimmed; no separator is left in it. The
  parsed value has a
  \<open>sentiment_distribution\<close> property \<open>d\<close> (undefined when no member has that key), and
  whenever \<open>d\<close> is truthy the returned distribution is \<open>d\<close> itself, whatever its shape.
\<close>

theorem extractSentiment_parse_success:
  assumes "regex_exec jsonRegex raw = Some m" and "map JSON_parse (groups m) = [Some parsed]"
  shows "cleanText (extractSentiment raw) =
           trim (replace_all separatorRegex []
             (take (index m) raw @ drop (index m + length (whole m)) raw))
         \<and> \<not> sublist (str ''--------------------------------------------------'')
               (cleanText (extractSentiment raw))
         \<and> (\<exists>d. get_sentiment_distribution parsed = Some d
                \<and> (truthy d \<longrightarrow> sentimentData (extractSentiment raw) = d))"
  using extract_parsed [OF assms] separator_gone_trim
  by (auto simp: separator_literal simp del: replace_all.simps)

text \<open>
  The example of C1: a report with a separator line and the fenced block
  \<open>{"sentiment_distribution": {"5": 80, "4": 10, "3": 5, "2": 3, "1": 2}}\<close>. The returned
  distribution is that object, and \<open>cleanText\<close> is the narrative alone.
\<close>

theorem extractSentiment_parse_success_witness:
  \<open>regex_exec jsonRegex (str ''Great campus.\<newline>--------------------------------------------------\<newline>```json\<newline>{"sentiment_distribution": {"5": 80, "4": 10, "3": 5, "2": 3, "1": 2}}\<newline>```\<newline>'')
     = Some \<lparr>index = 65,
         whole = str ''```json\<newline>{"sentiment_distribution": {"5": 80, "4": 10, "3": 5, "2": 3, "1": 2}}\<newline>```'',
         groups = [str ''{"sentiment_distribution": {"5": 80, "4": 10, "3": 5, "2": 3, "1": 2}}'']\<rparr>
   \<and> JSON_parse (str ''{"sentiment_distribution": {"5": 80, "4": 10, "3": 5, "2": 3, "1": 2}}'')
     = Some (JObj [(str ''sentiment_distribution'',
          JObj [(str ''5'', JNum (Finite 80)), (str ''4'', JNum (Finite 10)), (str ''3'', JNum (Finite 5)),
                (str ''2'', JNum (Finite 3)), (str ''1'', JNum (Finite 2))])])
   \<and> cleanText (extractSentiment (str ''Great campus.\<newline>--------------------------------------------------\<newline>```json\<newline>{"sentiment_distribution": {"5": 80, "4": 10, "3": 5, "2": 3, "1": 2}}\<newline>```\<newline>''))
     = str ''Great campus.''
   \<and> sentimentData (extractSentiment (str ''Great campus.\<newline>--------------------------------------------------\<newline>```json\<newline>{"sentiment_distribution": {"5": 80, "4": 10, "3": 5, "2": 3, "1": 2}}\<newline>```\<newline>''))
     = JObj [(str ''5'', JNum (Finite 80)), (str ''4'', JNum (Finite 10)), (str ''3'', JNum (Finite 5)),
             (str ''2'', JNum (Finite 3)), (str ''1'', JNum (Finite 2))]\<close>
proof -
  let ?raw = \<open>str ''Great campus.\<newline>--------------------------------------------------\<newline>```json\<newline>{"sentiment_distribution": {"5": 80, "4": 10, "3": 5, "2": 3, "1": 2}}\<newline>```\<newline>''\<close>
  let ?block = \<open>str ''{"sentiment_distribution": {"5": 80, "4": 10, "3": 5, "2": 3, "1": 2}}''\<close>
  let ?m = \<open>\<lparr>index = 65,
         whole = str ''```json\<newline>{"sentiment_distribution": {"5": 80, "4": 10, "3": 5, "2": 3, "1": 2}}\<newline>```'',
         groups = [?block]\<rparr>\<close>
  let ?dist = "JObj [(str ''5'', JNum (Finite 80)), (str ''4'', JNum (Finite 10)), (str ''3'', JNum (Finite 5)),
             (str ''2'', JNum (Finite 3)), (str ''1'', JNum (Finite 2))]"
  have h1: "regex_exec jsonRegex ?raw = Some ?m"
    by (simp add: regex_eval string_eval)
  have p: "JSON_parse ?block = Some (JObj [(str ''sentiment_distribution'', ?dist)])"
    by (simp add: json_eval string_eval)
  then have h2: "map JSON_parse (groups ?m) = [Some (JObj [(str ''sentiment_distribution'', ?dist)])]"
    by simp
  have d: "get_sentiment_distribution (JObj [(str ''sentiment_distribution'', ?dist)]) = Some ?dist"
    by simp
  have c: "trim (replace_all separatorRegex []
             (take (index ?m) ?raw @ drop (index ?m + length (whole ?m)) ?raw)) = str ''Great campus.''"
    by (simp add: regex_eval string_eval)
  from extractSentiment_parse_success [OF h1 h2] d c have
    "cleanText (extractSentiment ?raw) = str ''Great campus.''
     \<and> sentimentData (extractSentiment ?raw) = ?dist"
    by simp
  with h1 p show ?thesis by blast
qed

text \<open>
  C1 as stated fails where the property is falsy. For the report
  \<open>```json{"sentiment_distribution": 0}```\<close> the expression matches, the captured text
  parses, the property of the parsed object is the number 0, and the returned distribution
  is absent, not 0.
\<close>

theorem extractSentiment_falsy_property_counterexample:
  \<open>regex_exec jsonRegex (str ''```json{"sentiment_distribution": 0}```'')
     = Some \<lparr>index = 0, whole = str ''```json{"sentiment_distribution": 0}```'',
              groups = [str ''{"sentiment_distribution": 0}'']\<rparr>
   \<and> JSON_parse (str ''{"sentiment_distribution": 0}'')
     = Some (JObj [(str ''sentiment_distribution'', JNum (Finite 0))])
   \<and> get_sentiment_distribution (JObj [(str ''sentiment_distribution'', JNum (Finite 0))]) = Some (JNum (Finite 0))
   \<and> sentimentData (extractSentiment (str ''```json{"sentiment_distribution": 0}```'')) \<noteq> JNum (Finite 0)\<close>
proof -
  have "regex_exec jsonRegex (str ''```json{\"sentiment_distribution\": 0}```'')
     = Some \<lparr>index = 0, whole = str ''```json{\"sentiment_distribution\": 0}```'',
              groups = [str ''{\"sentiment_distribution\": 0}'']\<rparr>"
    by (simp add: regex_eval string_eval)
  moreover have "JSON_parse (str ''{\"sentiment_distribution\": 0}'')
     = Some (JObj [(str ''sentiment_distribution'', JNum (Finite 0))])"
    by (simp add: json_eval string_eval)
  moreover have "get_sentiment_distribution (JObj [(str ''sentiment_distribution'', JNum (Finite 0))])
     = Some (JNum (Finite 0))"
    by (simp add: str_def)
  moreover have "sentimentData (extractSentiment (str ''```json{\"sentiment_distribution\": 0}```''))
     \<noteq> JNum (Finite 0)"
    by (simp add: extractSentiment_def regex_eval json_eval string_eval)
  ultimately show ?thesis by blast
qed

text \<open>
  C2. When the fenced-block expression matches and the captured text is not valid JSON,
  nothing is thrown: the result is the raw text unchanged (the block stays), an absent
  distribution, and one logged diagnostic.
\<close>

theorem extractSentiment_malformed_json:
  assumes "regex_exec jsonRegex raw = Some m" and "map JSON_parse (groups m) = [None]"
  shows "extractSentiment raw =
           \<lparr>cleanText = raw, sentimentData = JNull,
            logged = [str ''Failed to parse hidden sentiment JSON'']\<rparr>"
  using assms by (rule extract_parse_failure)

text \<open>C2 on a block with a trailing comma.\<close>

theorem extractSentiment_malformed_json_witness:
  \<open>regex_exec jsonRegex (str ''A ```json{"sentiment_distribution": {"5": 80,}}``` B'')
     = Some \<lparr>index = 2, whole = str ''```json{"sentiment_distribution": {"5": 80,}}```'',
              groups = [str ''{"sentiment_distribution": {"5": 80,}}'']\<rparr>
   \<and> JSON_parse (str ''{"sentiment_distribution": {"5": 80,}}'') = None
   \<and> extractSentiment (str ''A ```json{"sentiment_distribution": {"5": 80,}}``` B'')
     = \<lparr>cleanText = str ''A ```json{"sentiment_distribution": {"5": 80,}}``` B'',
        sentimentData = JNull, logged = [str ''Failed to parse hidden sentiment JSON'']\<rparr>\<close>
proof -
  let ?raw = \<open>str ''A ```json{"sentiment_distribution": {"5": 80,}}``` B''\<close>
  let ?m = \<open>\<lparr>index = 2, whole = str ''```json{"sentiment_distribution": {"5": 80,}}```'',
              groups = [str ''{"sentiment_distribution": {"5": 80,}}'']\<rparr>\<close>
  have h1: "regex_exec jsonRegex ?raw = Some ?m"
    by (simp add: regex_eval string_eval)
  have p: \<open>JSON_parse (str ''{"sentiment_distribution": {"5": 80,}}'') = None\<close>
    by (simp add: json_eval string_eval)
  then have h2: "map JSON_parse (groups ?m) = [None]"
    by simp
  from extractSentiment_malformed_json [OF h1 h2] h1 p show ?thesis by blast
qed

text \<open>
  C3, as the code has it. One application removes the first matched block only. A second
  application to the \<open>cleanText\<close> of the first changes nothing in three cases. (a) The
  expression finds no match in the raw report: the first application returns the report
  itself, and the second finds no match either. (b) The expression matches and the captured
  text does not parse: the first application returns the report with the block still in
  it, and the second application finds the same block and returns the same result.
  (c) The expression matches, the captured text parses, and the report has no backtick
  outside the matched block: the \<open>cleanText\<close> is the report without that block, without the
  separators, trimmed; the expression finds no match in it, and the second application
  returns it with an absent distribution and no diagnostic. A match captures exactly one
  text, so these are all the cases but a report with backticks outside its first block.
\<close>

theorem extractSentiment_second_application:
  "(regex_exec jsonRegex raw = None \<longrightarrow>
      cleanText (extractSentiment raw) = raw
      \<and> regex_exec jsonRegex (cleanText (extractSentiment raw)) = None
      \<and> extractSentiment (cleanText (extractSentiment raw))
          = \<lparr>cleanText = cleanText (extractSentiment raw), sentimentData = JNull, logged = []\<rparr>)
   \<and> (regex_exec jsonRegex raw = Some m \<longrightarrow> (\<exists>p. map JSON_parse (groups m) = [p]))
   \<and> (regex_exec jsonRegex raw = Some m \<and> map JSON_parse (groups m) = [None] \<longrightarrow>
      cleanText (extractSentiment raw) = raw
      \<and> sentimentData (extractSentiment raw) = JNull
      \<and> extractSentiment (cleanText (extractSentiment raw)) = extractSentiment raw)
   \<and> (regex_exec jsonRegex raw = Some m \<and> map JSON_parse (groups m) = [Some parsed] \<longrightarrow>
      cleanText (extractSentiment raw)
        = trim (replace_all separatorRegex []
            (take (index m) raw @ drop (index m + length (whole m)) raw))
      \<and> (0x60 \<notin> set (take (index m) raw)
           \<and> 0x60 \<notin> set (drop (index m + length (whole m)) raw) \<longrightarrow>
         regex_exec jsonRegex (cleanText (extractSentiment raw)) = None
         \<and> extractSentiment (cleanText (extractSentiment raw))
             = \<lparr>cleanText = cleanText (extractSentiment raw), sentimentData = JNull,
                logged = []\<rparr>))"
proof (intro conjI impI)
  assume n: "regex_exec jsonRegex raw = None"
  then have e: "extractSentiment raw = \<lparr>cleanText = raw, sentimentData = JNull, logged = []\<rparr>"
    by (rule extract_no_match)
  show "cleanText (extractSentiment raw) = raw"
    by (simp add: e)
  show "regex_exec jsonRegex (cleanText (extractSentiment raw)) = None"
    by (simp add: e n)
  show "extractSentiment (cleanText (extractSentiment raw))
          = \<lparr>cleanText = cleanText (extractSentiment raw), sentimentData = JNull, logged = []\<rparr>"
    by (simp add: e)
next
  assume "regex_exec jsonRegex raw = Some m"
  from regex_exec_Some [OF this] have "groups m \<in> caplang jsonRegex" by simp
  then obtain t where "groups m = [0x7B # t]" using jsonRegex_groups by blast
  then show "\<exists>p. map JSON_parse (groups m) = [p]" by simp
next
  assume "regex_exec jsonRegex raw = Some m \<and> map JSON_parse (groups m) = [None]"
  then have "regex_exec jsonRegex raw = Some m" and "map JSON_parse (groups m) = [None]"
    by simp_all
  then have e: "extractSentiment raw =
      \<lparr>cleanText = raw, sentimentData = JNull,
       logged = [str ''Failed to parse hidden sentiment JSON'']\<rparr>"
    by (rule extract_parse_failure)
  show "cleanText (extractSentiment raw) = raw"
    by (simp add: e)
  show "sentimentData (extractSentiment raw) = JNull"
    by (simp add: e)
  have "extractSentiment (cleanText (extractSentiment raw)) = extractSentiment raw"
    by (simp only: e extraction.simps)
  then show "extractSentiment (cleanText (extractSentiment raw)) = extractSentiment raw" .
next
  assume a: "regex_exec jsonRegex raw = Some m \<and> map JSON_parse (groups m) = [Some parsed]"
  then have "regex_exec jsonRegex raw = Some m" and "map JSON_parse (groups m) = [Some parsed]"
    by simp_all
  from extract_parsed [OF this] obtain d where "extractSentiment raw =
      \<lparr>cleanText = trim (replace_all separatorRegex []
          (take (index m) raw @ drop (index m + length (whole m)) raw)),
       sentimentData = (if truthy d then d else JNull), logged = []\<rparr>"
    by (elim exE conjE)
  then have c: "cleanText (extractSentiment raw)
        = trim (replace_all separatorRegex []
            (take (index m) raw @ drop (index m + length (whole m)) raw))"
    by (simp del: replace_all.simps)
  then show "cleanText (extractSentiment raw)
        = trim (replace_all separatorRegex []
            (take (index m) raw @ drop (index m + length (whole m)) raw))" .
  assume "0x60 \<notin> set (take (index m) raw)
           \<and> 0x60 \<notin> set (drop (index m + length (whole m)) raw)"
  then have "0x60 \<notin> set (cleanText (extractSentiment raw))"
    unfolding c using cleaned_no_backtick by blast
  then have n: "regex_exec jsonRegex (cleanText (extractSentiment raw)) = None"
    by (rule no_backtick_no_match)
  then show "regex_exec jsonRegex (cleanText (extractSentiment raw)) = None" .
  from n show "extractSentiment (cleanText (extractSentiment raw))
             = \<lparr>cleanText = cleanText (extractSentiment raw), sentimentData = JNull,
                logged = []\<rparr>"
    by (rule extract_no_match)
qed

text \<open>
  C3 on three reports: one without a block, one whose block has a trailing comma, and one
  with a single block, whose \<open>cleanText\<close> is \<open>Hi\<close>.
\<close>

theorem extractSentiment_second_application_witness:
  \<open>regex_exec jsonRegex (str ''Plain text'') = None
   \<and> extractSentiment (cleanText (extractSentiment (str ''Plain text'')))
       = \<lparr>cleanText = str ''Plain text'', sentimentData = JNull, logged = []\<rparr>
   \<and> regex_exec jsonRegex (str ''Hi ```json{"sentiment_distribution": {"5": 100,}}``` '')
       = Some \<lparr>index = 3, whole = str ''```json{"sentiment_distribution": {"5": 100,}}```'',
                groups = [str ''{"sentiment_distribution": {"5": 100,}}'']\<rparr>
   \<and> JSON_parse (str ''{"sentiment_distribution": {"5": 100,}}'') = None
   \<and> extractSentiment (cleanText (extractSentiment
         (str ''Hi ```json{"sentiment_distribution": {"5": 100,}}``` '')))
       = extractSentiment (str ''Hi ```json{"sentiment_distribution": {"5": 100,}}``` '')
   \<and> regex_exec jsonRegex (str ''Hi ```json{"sentiment_distribution": {"5": 100}}``` '')
       = Some \<lparr>index = 3, whole = str ''```json{"sentiment_distribution": {"5": 100}}```'',
                groups = [str ''{"sentiment_distribution": {"5": 100}}'']\<rparr>
   \<and> JSON_parse (str ''{"sentiment_distribution": {"5": 100}}'')
       = Some (JObj [(str ''sentiment_distribution'', JObj [(str ''5'', JNum (Finite 100))])])
   \<and> 0x60 \<notin> set (take 3 (str ''Hi ```json{"sentiment_distribution": {"5": 100}}``` ''))
   \<and> 0x60 \<notin> set (drop (3 + length (str ''```json{"sentiment_distribution": {"5": 100}}```''))
                  (str ''Hi ```json{"sentiment_distribution": {"5": 100}}``` ''))
   \<and> cleanText (extractSentiment (str ''Hi ```json{"sentiment_distribution": {"5": 100}}``` ''))
       = str ''Hi''
   \<and> regex_exec jsonRegex (cleanText (extractSentiment
         (str ''Hi ```json{"sentiment_distribution": {"5": 100}}``` ''))) = None
   \<and> extractSentiment (cleanText (extractSentiment
         (str ''Hi ```json{"sentiment_distribution": {"5": 100}}``` '')))
       = \<lparr>cleanText = str ''Hi'', sentimentData = JNull, logged = []\<rparr>\<close>
proof -
  let ?raw1 = \<open>str ''Plain text''\<close>
  let ?raw2 = \<open>str ''Hi ```json{"sentiment_distribution": {"5": 100,}}``` ''\<close>
  let ?m2 = \<open>\<lparr>index = 3, whole = str ''```json{"sentiment_distribution": {"5": 100,}}```'',
                groups = [str ''{"sentiment_distribution": {"5": 100,}}'']\<rparr>\<close>
  let ?raw3 = \<open>str ''Hi ```json{"sentiment_distribution": {"5": 100}}``` ''\<close>
  let ?m3 = \<open>\<lparr>index = 3, whole = str ''```json{"sentiment_distribution": {"5": 100}}```'',
                groups = [str ''{"sentiment_distribution": {"5": 100}}'']\<rparr>\<close>
  let ?p3 = \<open>JObj [(str ''sentiment_distribution'', JObj [(str ''5'', JNum (Finite 100))])]\<close>
  have r1: "regex_exec jsonRegex ?raw1 = None"
    by (simp add: regex_eval string_eval)
  have r2: "regex_exec jsonRegex ?raw2 = Some ?m2"
    by (simp add: regex_eval string_eval)
  have j2: \<open>JSON_parse (str ''{"sentiment_distribution": {"5": 100,}}'') = None\<close>
    by (simp add: json_eval string_eval)
  have r3: "regex_exec jsonRegex ?raw3 = Some ?m3"
    by (simp add: regex_eval string_eval)
  have j3: \<open>JSON_parse (str ''{"sentiment_distribution": {"5": 100}}'') = Some ?p3\<close>
    by (simp add: json_eval string_eval)
  have b3: "0x60 \<notin> set (take 3 ?raw3)"
    \<open>0x60 \<notin> set (drop (3 + length (str ''```json{"sentiment_distribution": {"5": 100}}```''))
                  ?raw3)\<close>
    by (simp_all add: str_def)
  have c3: "cleanText (extractSentiment ?raw3) = str ''Hi''"
    by (simp add: extractSentiment_def regex_eval json_eval string_eval)
  have m2: "map JSON_parse (groups ?m2) = [None]"
    using j2 by simp
  have m3: "map JSON_parse (groups ?m3) = [Some ?p3]"
    using j3 by simp
  have bt: "0x60 \<notin> set (take (index ?m3) ?raw3)
      \<and> 0x60 \<notin> set (drop (index ?m3 + length (whole ?m3)) ?raw3)"
    using b3 by simp
  note first = extractSentiment_second_application [of ?raw1, THEN conjunct1, THEN mp, OF r1]
  note second = extractSentiment_second_application [of ?raw2 ?m2, THEN conjunct2,
      THEN conjunct2, THEN conjunct1, THEN mp, OF conjI [OF r2 m2]]
  note third = extractSentiment_second_application [of ?raw3 ?m3 ?p3, THEN conjunct2,
      THEN conjunct2, THEN conjunct2, THEN mp, OF conjI [OF r3 m3], THEN conjunct2, THEN mp,
      OF bt]
  have 1: "extractSentiment (cleanText (extractSentiment ?raw1))
       = \<lparr>cleanText = ?raw1, sentimentData = JNull, logged = []\<rparr>"
    by (subst first [THEN conjunct2, THEN conjunct2]) (simp only: first [THEN conjunct1])
  have 2: "extractSentiment (cleanText (extractSentiment ?raw2)) = extractSentiment ?raw2"
    by (rule second [THEN conjunct2, THEN conjunct2])
  have 3: "regex_exec jsonRegex (cleanText (extractSentiment ?raw3)) = None"
    by (rule third [THEN conjunct1])
  have 4: "extractSentiment (cleanText (extractSentiment ?raw3))
          = \<lparr>cleanText = str ''Hi'', sentimentData = JNull, logged = []\<rparr>"
    by (subst third [THEN conjunct2]) (simp only: c3)
  show ?thesis
    by (intro conjI r1 1 r2 j2 2 r3 j3 b3 c3 3 4)
qed

text \<open>
  C3 as stated fails on a report with two blocks. The first application removes the first
  block only; the second application finds the other block in the \<open>cleanText\<close>, removes it
  and returns its distribution.
\<close>

theorem extractSentiment_second_block_counterexample:
  \<open>extractSentiment (str ''```json{"sentiment_distribution": {"5": 100}}``` Review ```json{"sentiment_distribution": {"1": 100}}```'')
     = \<lparr>cleanText = str ''Review ```json{"sentiment_distribution": {"1": 100}}```'',
        sentimentData = JObj [(str ''5'', JNum (Finite 100))], logged = []\<rparr>
   \<and> extractSentiment (str ''Review ```json{"sentiment_distribution": {"1": 100}}```'')
     = \<lparr>cleanText = str ''Review'',
        sentimentData = JObj [(str ''1'', JNum (Finite 100))], logged = []\<rparr>
   \<and> cleanText (extractSentiment (cleanText (extractSentiment (str ''```json{"sentiment_distribution": {"5": 100}}``` Review ```json{"sentiment_distribution": {"1": 100}}```''))))
     \<noteq> cleanText (extractSentiment (str ''```json{"sentiment_distribution": {"5": 100}}``` Review ```json{"sentiment_distribution": {"1": 100}}```''))
   \<and> sentimentData (extractSentiment (cleanText (extractSentiment (str ''```json{"sentiment_distribution": {"5": 100}}``` Review ```json{"sentiment_distribution": {"1": 100}}```''))))
     \<noteq> JNull\<close>
proof -
  let ?raw = \<open>str ''```json{"sentiment_distribution": {"5": 100}}``` Review ```json{"sentiment_distribution": {"1": 100}}```''\<close>
  let ?mid = \<open>str ''Review ```json{"sentiment_distribution": {"1": 100}}```''\<close>
  have a: "extractSentiment ?raw
     = \<lparr>cleanText = ?mid, sentimentData = JObj [(str ''5'', JNum (Finite 100))], logged = []\<rparr>"
    by (simp add: extractSentiment_def regex_eval json_eval string_eval)
  have b: "extractSentiment ?mid
     = \<lparr>cleanText = str ''Review'', sentimentData = JObj [(str ''1'', JNum (Finite 100))], logged = []\<rparr>"
    by (simp add: extractSentiment_def regex_eval json_eval string_eval)
  have ne: "str ''Review'' \<noteq> ?mid"
    by (simp add: str_def)
  have "cleanText (extractSentiment (cleanText (extractSentiment ?raw)))
          \<noteq> cleanText (extractSentiment ?raw)"
    by (simp add: a b ne)
  moreover have "sentimentData (extractSentiment (cleanText (extractSentiment ?raw))) \<noteq> JNull"
    by (simp add: a b)
  ultimately show ?thesis using a b by blast
qed

text \<open>
  C4, as the code has it. A fenced block is a text of the form \<^verbatim>\<open>```json\<close>, white space,
  \<^verbatim>\<open>{\<close> ... \<^verbatim>\<open>"sentiment_distribution"\<close> ... \<^verbatim>\<open>}\<close>, white space, \<^verbatim>\<open>```\<close>: the quoted name
  may stand anywhere between the braces, as a key or not, and the text between the braces
  need not be JSON. The expression of the source finds a match exactly in the reports that
  contain such a text. For a report that contains none, the result is the raw text exactly
  as it is (it is not trimmed), an absent distribution, and no diagnostic.
\<close>

theorem extractSentiment_no_block:
  "(containsFencedBlock raw \<longleftrightarrow> regex_exec jsonRegex raw \<noteq> None)
   \<and> (\<not> containsFencedBlock raw \<longrightarrow>
        extractSentiment raw = \<lparr>cleanText = raw, sentimentData = JNull, logged = []\<rparr>)"
  using containsFencedBlock_iff [of raw] extract_no_match [of raw] by blast

text \<open>
  C4 on a report with white space around it and a fenced block that does not hold the
  quoted name.
\<close>

theorem extractSentiment_no_block_witness:
  \<open>\<not> containsFencedBlock (str '' Report ```json {"stars": 5}``` '')
   \<and> extractSentiment (str '' Report ```json {"stars": 5}``` '')
     = \<lparr>cleanText = str '' Report ```json {"stars": 5}``` '', sentimentData = JNull,
        logged = []\<rparr>\<close>
proof -
  have h: \<open>regex_exec jsonRegex (str '' Report ```json {"stars": 5}``` '') = None\<close>
    by (simp add: regex_eval string_eval)
  from extractSentiment_no_block [of \<open>str '' Report ```json {"stars": 5}``` ''\<close>] h
  show ?thesis by simp
qed

text \<open>
  C4 as stated fails twice. For the report \<open>" Plain report "\<close>, which has no block, the
  returned text is not the trimmed text. And the report
  \<^verbatim>\<open>x ```json{"a":"sentiment_distribution"}``` y\<close> has one fenced JSON block, whose only key is
  \<open>a\<close>; the expression matches it all the same, and the block is removed.
\<close>

theorem extractSentiment_no_block_untrimmed_counterexample:
  \<open>\<not> containsFencedBlock (str '' Plain report '')
   \<and> trim (str '' Plain report '') = str ''Plain report''
   \<and> cleanText (extractSentiment (str '' Plain report '')) \<noteq> trim (str '' Plain report '')
   \<and> JSON_parse (str ''{"a":"sentiment_distribution"}'')
       = Some (JObj [(str ''a'', JStr (str ''sentiment_distribution''))])
   \<and> extractSentiment (str ''x ```json{"a":"sentiment_distribution"}``` y'')
       = \<lparr>cleanText = str ''x  y'', sentimentData = JNull, logged = []\<rparr>
   \<and> str ''x  y'' \<noteq> trim (str ''x ```json{"a":"sentiment_distribution"}``` y'')\<close>
proof -
  have "regex_exec jsonRegex (str '' Plain report '') = None"
    by (simp add: regex_eval string_eval)
  then have 1: "\<not> containsFencedBlock (str '' Plain report '')"
    by (simp add: containsFencedBlock_iff)
  have 2: "trim (str '' Plain report '') = str ''Plain report''
     \<and> cleanText (extractSentiment (str '' Plain report '')) \<noteq> trim (str '' Plain report '')"
    by (simp add: extractSentiment_def regex_eval string_eval)
  have 3: \<open>JSON_parse (str ''{"a":"sentiment_distribution"}'')
       = Some (JObj [(str ''a'', JStr (str ''sentiment_distribution''))])\<close>
    by (simp add: json_eval string_eval)
  have 4: \<open>extractSentiment (str ''x ```json{"a":"sentiment_distribution"}``` y'')
       = \<lparr>cleanText = str ''x  y'', sentimentData = JNull, logged = []\<rparr>\<close>
    by (simp add: extractSentiment_def regex_eval json_eval string_eval)
  have 5: \<open>str ''x  y'' \<noteq> trim (str ''x ```json{"a":"sentiment_distribution"}``` y'')\<close>
    by (simp add: string_eval)
  from 1 2 3 4 5 show ?thesis by blast
qed

text \<open>
  C10. Let the fenced-block expression match, let the captured text parse, and let the
  \<open>sentiment_distribution\<close> property \<open>d\<close> of the parsed value be falsy: undefined, null,
  false, the number 0 or the empty string. Then the distribution is absent, and the block
  is removed all the same: \<open>cleanText\<close> is the raw text without the matched block, without
  the fifty-dash separators (none is left), trimmed. Nothing is logged.
\<close>

theorem extractSentiment_falsy_property:
  assumes "regex_exec jsonRegex raw = Some m" and "map JSON_parse (groups m) = [Some parsed]"
    and "get_sentiment_distribution parsed = Some d" and "\<not> truthy d"
  shows "extractSentiment raw =
           \<lparr>cleanText = trim (replace_all separatorRegex []
              (take (index m) raw @ drop (index m + length (whole m)) raw)),
            sentimentData = JNull, logged = []\<rparr>
         \<and> \<not> sublist (str ''--------------------------------------------------'')
               (cleanText (extractSentiment raw))
         \<and> \<not> truthy JUndefined \<and> \<not> truthy JNull \<and> \<not> truthy (JBool False)
         \<and> \<not> truthy (JNum (Finite 0)) \<and> \<not> truthy (JStr [])"
  using extract_parsed [OF assms(1,2)] assms(3,4) separator_gone_trim
  by (auto simp: separator_literal falsyNumber_def isZero_def simp del: replace_all.simps)

text \<open>C10 on a block whose property is null.\<close>

theorem extractSentiment_falsy_property_witness:
  \<open>regex_exec jsonRegex (str ''Text ```json{"sentiment_distribution": null}``` more'')
     = Some \<lparr>index = 5, whole = str ''```json{"sentiment_distribution": null}```'',
              groups = [str ''{"sentiment_distribution": null}'']\<rparr>
   \<and> JSON_parse (str ''{"sentiment_distribution": null}'')
     = Some (JObj [(str ''sentiment_distribution'', JNull)])
   \<and> extractSentiment (str ''Text ```json{"sentiment_distribution": null}``` more'')
     = \<lparr>cleanText = str ''Text  more'', sentimentData = JNull, logged = []\<rparr>\<close>
proof -
  let ?raw = \<open>str ''Text ```json{"sentiment_distribution": null}``` more''\<close>
  let ?m = \<open>\<lparr>index = 5, whole = str ''```json{"sentiment_distribution": null}```'',
              groups = [str ''{"sentiment_distribution": null}'']\<rparr>\<close>
  let ?parsed = "JObj [(str ''sentiment_distribution'', JNull)]"
  have h1: "regex_exec jsonRegex ?raw = Some ?m"
    by (simp add: regex_eval string_eval)
  have p: \<open>JSON_parse (str ''{"sentiment_distribution": null}'') = Some ?parsed\<close>
    by (simp add: json_eval string_eval)
  then have h2: "map JSON_parse (groups ?m) = [Some ?parsed]"
    by simp
  have h3: "get_sentiment_distribution ?parsed = Some JNull"
    by simp
  have h4: "\<not> truthy JNull"
    by simp
  have c: "trim (replace_all separatorRegex []
             (take (index ?m) ?raw @ drop (index ?m + length (whole ?m)) ?raw)) = str ''Text  more''"
    by (simp add: regex_eval string_eval)
  from extractSentiment_falsy_property [OF h1 h2 h3 h4] c
  have "extractSentiment ?raw = \<lparr>cleanText = str ''Text  more'', sentimentData = JNull, logged = []\<rparr>"
    by simp
  with h1 p show ?thesis by blast
qed

section \<open>The markdown renderer: C5, C6, C9\<close>

text \<open>
  C5. \<open>renderFormattedText\<close> splits the text on newline (joining the lines with newlines
  gives the text back, and no line holds a newline) and gives each line the block that
  \<open>classifyLine\<close> gives its trimmed form: in this order, the prefix \<open>"# "\<close> makes
  \<open>Heading 1\<close>, \<open>"## "\<close> \<open>Heading 2\<close>, \<open>"### "\<close> \<open>Heading 3\<close>, one of \<open>"- "\<close>, \<open>"* "\<close> and
  em dash with a space a \<open>BulletItem\<close>, the empty line a \<open>Spacer\<close>, any other line a
  \<open>Paragraph\<close>. The heading text is the line without its prefix; the bullet text is the
  line without its marker and the white space after it.
\<close>

theorem renderFormattedText_classifies_lines:
  "renderFormattedText text = map (\<lambda>line. classifyLine (trim line)) (split_chr 0xA text)
   \<and> joinLines (split_chr 0xA text) = text
   \<and> 0xA \<notin> set (concat (split_chr 0xA text))"
proof (intro conjI)
  show "renderFormattedText text = map (\<lambda>line. classifyLine (trim line)) (split_chr 0xA text)"
    by (simp add: renderFormattedText_def renderLine_classify)
  show "joinLines (split_chr 0xA text) = text"
    by (rule joinLines_split_chr)
  show "0xA \<notin> set (concat (split_chr 0xA text))"
    by (rule split_chr_no_separator)
qed

text \<open>
  C6. The content of a bullet item or paragraph is divided at the paired \<open>**\<close> delimiters,
  nearest closing delimiter first, over the whole content (\<open>pairedSplit\<close>); the fragments
  put together are the content. A fragment is \<open>Emphasized\<close> exactly when it starts and ends
  with \<open>**\<close>, its text being the fragment without the delimiters; any other fragment is
  \<open>PlainText\<close>, unchanged, and so is the empty fragment.
\<close>

theorem boldSpans_paired_delimiters:
  "split_re boldRegex content = pairedSplit [] content
   \<and> concat (split_re boldRegex content) = content
   \<and> boldSpans content = map spanOf (split_re boldRegex content)
   \<and> spanOf [] = PlainText []"
proof (intro conjI)
  show "split_re boldRegex content = pairedSplit [] content"
    by (rule split_re_boldRegex)
  show "concat (split_re boldRegex content) = content"
    by (simp add: split_re_boldRegex concat_pairedSplit)
  show "boldSpans content = map spanOf (split_re boldRegex content)"
    by (rule boldSpans_spanOf)
  show "spanOf [] = PlainText []"
    by (simp add: spanOf_def str_def)
qed

text \<open>
  C9, as the code has it. The input \<open>"- item one\n- **item** two"\<close> gives exactly two
  \<open>BulletItem\<close> blocks. The spans of the second are an empty \<open>PlainText\<close> (the piece before
  the first delimiter pair), \<open>Emphasized "item"\<close> and \<open>PlainText " two"\<close>.
\<close>

theorem renderFormattedText_bullets_example:
  "renderFormattedText (str ''- item one\<newline>- **item** two'') =
     [BulletItem [PlainText (str ''item one'')],
      BulletItem [PlainText [], Emphasized (str ''item''), PlainText (str '' two'')]]"
  by (simp add: render_eval string_eval)

text \<open>
  C9 as stated fails: the second block is not the \<open>BulletItem\<close> whose spans are
  \<open>Emphasized "item"\<close> and \<open>PlainText " two"\<close> only.
\<close>

theorem renderFormattedText_bullets_counterexample:
  "renderFormattedText (str ''- item one\<newline>- **item** two'') ! 1
     \<noteq> BulletItem [Emphasized (str ''item''), PlainText (str '' two'')]"
  by (simp add: render_eval string_eval)

section \<open>The pie chart: C7, C8\<close>

lemma pieStep_value:
  "(case data k of None \<Rightarrow> Finite 0 | Some v \<Rightarrow> if falsyNumber v then Finite 0 else v)
     = (case data k of None \<Rightarrow> Finite 0
        | Some v \<Rightarrow> if v = NaN \<or> v = NegZero then Finite 0 else v)"
  by (auto simp: falsyNumber_def isZero_def split: option.split)

lemma pieStep_sweep:
  "pieStep data (c, ps) (str k) =
     (addDouble c (sweep data k),
      ps @ [\<lparr>color = (case map_of colors (str k) of None \<Rightarrow> str ''undefined'' | Some c \<Rightarrow> c),
              startDeg = c, endDeg = addDouble c (sweep data k)\<rparr>])"
  unfolding pieStep_def sweep_def percentage_def Let_def fst_conv snd_conv pieStep_value ..

lemma colors_lookup:
  "map_of colors (str ''5'') = Some (str ''#10b981'')"
  "map_of colors (str ''4'') = Some (str ''#34d399'')"
  "map_of colors (str ''3'') = Some (str ''#facc15'')"
  "map_of colors (str ''2'') = Some (str ''#fb923c'')"
  "map_of colors (str ''1'') = Some (str ''#f87171'')"
  by (simp_all add: colors_def str_def)

lemma getPieStyle_segments:
  "getPieStyle data =
     [\<lparr>color = str ''#10b981'', startDeg = Finite 0,
        endDeg = addDouble (Finite 0) (sweep data ''5'')\<rparr>,
      \<lparr>color = str ''#34d399'', startDeg = addDouble (Finite 0) (sweep data ''5''),
        endDeg = addDouble (addDouble (Finite 0) (sweep data ''5'')) (sweep data ''4'')\<rparr>,
      \<lparr>color = str ''#facc15'',
        startDeg = addDouble (addDouble (Finite 0) (sweep data ''5'')) (sweep data ''4''),
        endDeg = addDouble (addDouble (addDouble (Finite 0) (sweep data ''5''))
                   (sweep data ''4'')) (sweep data ''3'')\<rparr>,
      \<lparr>color = str ''#fb923c'',
        startDeg = addDouble (addDouble (addDouble (Finite 0) (sweep data ''5''))
                     (sweep data ''4'')) (sweep data ''3''),
        endDeg = addDouble (addDouble (addDouble (addDouble (Finite 0) (sweep data ''5''))
                   (sweep data ''4'')) (sweep data ''3'')) (sweep data ''2'')\<rparr>,
      \<lparr>color = str ''#f87171'',
        startDeg = addDouble (addDouble (addDouble (addDouble (Finite 0) (sweep data ''5''))
                     (sweep data ''4'')) (sweep data ''3'')) (sweep data ''2''),
        endDeg = addDouble (addDouble (addDouble (addDouble (addDouble (Finite 0)
                   (sweep data ''5'')) (sweep data ''4'')) (sweep data ''3''))
                   (sweep data ''2'')) (sweep data ''1'')\<rparr>]"
  unfolding getPieStyle_def foldl.simps pieStep_sweep colors_lookup option.case snd_conv
    append.simps ..

lemma getPieStyle_last:
  "endDeg (last (getPieStyle data)) =
     addDouble (addDouble (addDouble (addDouble (addDouble (Finite 0)
       (sweep data ''5'')) (sweep data ''4'')) (sweep data ''3''))
       (sweep data ''2'')) (sweep data ''1'')"
  by (simp add: getPieStyle_segments)

lemma sweep_absent: "data (str k) = None \<Longrightarrow> sweep data k = Finite 0"
  by (simp add: sweep_def percentage_def double_eval)

lemma sweep_present:
  "data (str k) = Some (Finite x) \<Longrightarrow>
     sweep data k = mulDouble (divDouble (Finite x) (Finite 100)) (Finite 360)"
  by (simp add: sweep_def percentage_def)

lemma sweep_values:
  "mulDouble (divDouble (Finite 100) (Finite 100)) (Finite 360) = Finite 360"
  "mulDouble (divDouble (Finite 50) (Finite 100)) (Finite 360) = Finite 180"
  "mulDouble (divDouble (Finite 62) (Finite 100)) (Finite 360)
     = Finite (3926575925113651 / 17592186044416)"
  "mulDouble (divDouble (Finite 1) (Finite 100)) (Finite 360)
     = Finite (8106479329266893 / 2251799813685248)"
  "mulDouble (divDouble (Finite 5) (Finite 100)) (Finite 360) = Finite 18"
  "mulDouble (divDouble (Finite 23) (Finite 100)) (Finite 360)
     = Finite (5826532017910579 / 70368744177664)"
  "mulDouble (divDouble (Finite 9) (Finite 100)) (Finite 360)
     = Finite (4559894622712627 / 140737488355328)"
  by (simp_all add: double_eval)

lemma angle_sums:
  "addDouble (Finite 0) (Finite 0) = Finite 0"
  "addDouble (Finite 0) (Finite 180) = Finite 180"
  "addDouble (Finite 180) (Finite 0) = Finite 180"
  "addDouble (Finite 0) (Finite 360) = Finite 360"
  "addDouble (Finite 360) (Finite 0) = Finite 360"
  "addDouble (Finite 0) (Finite (3926575925113651 / 17592186044416))
     = Finite (3926575925113651 / 17592186044416)"
  "addDouble (Finite (3926575925113651 / 17592186044416))
       (Finite (8106479329266893 / 2251799813685248))
     = Finite (7979815589747097 / 35184372088832)"
  "addDouble (Finite (7979815589747097 / 35184372088832)) (Finite 18)
     = Finite (8613134287346073 / 35184372088832)"
  "addDouble (Finite (8613134287346073 / 35184372088832))
       (Finite (5826532017910579 / 70368744177664))
     = Finite (5763200148150681 / 17592186044416)"
  "addDouble (Finite (5763200148150681 / 17592186044416))
       (Finite (4559894622712627 / 140737488355328))
     = Finite (6333186975989759 / 17592186044416)"
  by (simp_all add: double_eval)

lemma sweeps_of_examples:
  "sweep [str ''5'' \<mapsto> Finite 100] ''5'' = Finite 360"
  "sweep [str ''5'' \<mapsto> Finite 100] ''4'' = Finite 0"
  "sweep [str ''5'' \<mapsto> Finite 100] ''3'' = Finite 0"
  "sweep [str ''5'' \<mapsto> Finite 100] ''2'' = Finite 0"
  "sweep [str ''5'' \<mapsto> Finite 100] ''1'' = Finite 0"
  "sweep [str ''5'' \<mapsto> Finite 50] ''5'' = Finite 180"
  "sweep [str ''5'' \<mapsto> Finite 50] ''4'' = Finite 0"
  "sweep [str ''5'' \<mapsto> Finite 50] ''3'' = Finite 0"
  "sweep [str ''5'' \<mapsto> Finite 50] ''2'' = Finite 0"
  "sweep [str ''5'' \<mapsto> Finite 50] ''1'' = Finite 0"
  "sweep Map.empty k = Finite 0"
  by (simp_all add: sweep_absent sweep_present sweep_values str_def)

lemma sweeps_of_rounded_example:
  fixes data :: "jsstring \<rightharpoonup> double"
  assumes "data = [str ''5'' \<mapsto> Finite 62, str ''4'' \<mapsto> Finite 1,
      str ''3'' \<mapsto> Finite 5, str ''2'' \<mapsto> Finite 23, str ''1'' \<mapsto> Finite 9]"
  shows "sweep data ''5'' = Finite (3926575925113651 / 17592186044416)"
    and "sweep data ''4'' = Finite (8106479329266893 / 2251799813685248)"
    and "sweep data ''3'' = Finite 18"
    and "sweep data ''2'' = Finite (5826532017910579 / 70368744177664)"
    and "sweep data ''1'' = Finite (4559894622712627 / 140737488355328)"
  unfolding assms by (simp_all add: sweep_present sweep_values str_def)

text \<open>
  C7, as the code has it. \<open>getPieStyle\<close> visits the star keys in the order 5, 4, 3, 2, 1.
  The value of a key is its percentage, 0 when the key is absent (and when the value is
  NaN or the negative zero); its sweep is percentage / 100 * 360 degrees, computed in
  doubles. Every segment starts at the end
  angle of the one before (the first at 0) and ends one sweep further. The last end angle
  is therefore the sum of the five sweeps taken from 0 in that order, each addition
  rounded; it is not rescaled to 360 degrees: for \<open>{"5": 50}\<close> it is 180.
\<close>

theorem getPieStyle_running_angles:
  "(let e5 = addDouble (Finite 0) (sweep data ''5'');
        e4 = addDouble e5 (sweep data ''4'');
        e3 = addDouble e4 (sweep data ''3'');
        e2 = addDouble e3 (sweep data ''2'');
        e1 = addDouble e2 (sweep data ''1'')
    in getPieStyle data =
         [\<lparr>color = str ''#10b981'', startDeg = Finite 0, endDeg = e5\<rparr>,
          \<lparr>color = str ''#34d399'', startDeg = e5, endDeg = e4\<rparr>,
          \<lparr>color = str ''#facc15'', startDeg = e4, endDeg = e3\<rparr>,
          \<lparr>color = str ''#fb923c'', startDeg = e3, endDeg = e2\<rparr>,
          \<lparr>color = str ''#f87171'', startDeg = e2, endDeg = e1\<rparr>]
       \<and> endDeg (last (getPieStyle data)) = e1)
   \<and> endDeg (last (getPieStyle [str ''5'' \<mapsto> Finite 50])) = Finite 180"
proof -
  have "endDeg (last (getPieStyle [str ''5'' \<mapsto> Finite 50])) = Finite 180"
    unfolding getPieStyle_last sweeps_of_examples angle_sums ..
  then show ?thesis
    unfolding Let_def getPieStyle_last by (simp add: getPieStyle_segments)
qed

text \<open>
  C7 as stated fails on the last end angle. For the percentages 62, 1, 5, 23 and 9, which
  sum to 100, the last end angle is \<open>360 - 1 / 2 ^ 44\<close> (printed 359.99999999999994), while
  the sum of the percentages / 100 * 360 is 360, in exact arithmetic and in doubles.
\<close>

theorem getPieStyle_rounded_sum_counterexample:
  "endDeg (last (getPieStyle [str ''5'' \<mapsto> Finite 62, str ''4'' \<mapsto> Finite 1,
      str ''3'' \<mapsto> Finite 5, str ''2'' \<mapsto> Finite 23, str ''1'' \<mapsto> Finite 9]))
     = Finite (360 - 1 / 2 ^ 44)
   \<and> Finite (360 - 1 / 2 ^ 44) \<noteq> Finite ((62 + 1 + 5 + 23 + 9) / 100 * 360)
   \<and> mulDouble (divDouble (addDouble (addDouble (addDouble (addDouble (Finite 62) (Finite 1))
        (Finite 5)) (Finite 23)) (Finite 9)) (Finite 100)) (Finite 360) = Finite 360"
proof (intro conjI)
  have "(6333186975989759 / 17592186044416 :: rat) = 360 - 1 / 2 ^ 44"
    by simp
  then show "endDeg (last (getPieStyle [str ''5'' \<mapsto> Finite 62, str ''4'' \<mapsto> Finite 1,
      str ''3'' \<mapsto> Finite 5, str ''2'' \<mapsto> Finite 23, str ''1'' \<mapsto> Finite 9]))
     = Finite (360 - 1 / 2 ^ 44)"
    unfolding getPieStyle_last sweeps_of_rounded_example [OF refl] angle_sums by simp
  show "Finite (360 - 1 / 2 ^ 44) \<noteq> Finite ((62 + 1 + 5 + 23 + 9) / 100 * 360)"
    by simp
  have "addDouble (addDouble (addDouble (addDouble (Finite 62) (Finite 1))
        (Finite 5)) (Finite 23)) (Finite 9) = Finite 100"
    by (simp add: double_eval)
  then show "mulDouble (divDouble (addDouble (addDouble (addDouble (addDouble (Finite 62)
        (Finite 1)) (Finite 5)) (Finite 23)) (Finite 9)) (Finite 100)) (Finite 360) = Finite 360"
    by (simp add: sweep_values)
qed

text \<open>
  C8, as the code has it. For the distribution \<open>{"5": 100}\<close> the result has five segments:
  the one of the star-5 colour spans 0 to 360 degrees, and the four after it have zero
  width at 360 degrees. For the empty distribution the result has five segments of zero
  width at 0 degrees.
\<close>

theorem getPieStyle_examples:
  "getPieStyle [str ''5'' \<mapsto> Finite 100] =
     [\<lparr>color = str ''#10b981'', startDeg = Finite 0, endDeg = Finite 360\<rparr>,
      \<lparr>color = str ''#34d399'', startDeg = Finite 360, endDeg = Finite 360\<rparr>,
      \<lparr>color = str ''#facc15'', startDeg = Finite 360, endDeg = Finite 360\<rparr>,
      \<lparr>color = str ''#fb923c'', startDeg = Finite 360, endDeg = Finite 360\<rparr>,
      \<lparr>color = str ''#f87171'', startDeg = Finite 360, endDeg = Finite 360\<rparr>]
   \<and> getPieStyle Map.empty =
     [\<lparr>color = str ''#10b981'', startDeg = Finite 0, endDeg = Finite 0\<rparr>,
      \<lparr>color = str ''#34d399'', startDeg = Finite 0, endDeg = Finite 0\<rparr>,
      \<lparr>color = str ''#facc15'', startDeg = Finite 0, endDeg = Finite 0\<rparr>,
      \<lparr>color = str ''#fb923c'', startDeg = Finite 0, endDeg = Finite 0\<rparr>,
      \<lparr>color = str ''#f87171'', startDeg = Finite 0, endDeg = Finite 0\<rparr>]"
  unfolding getPieStyle_segments sweeps_of_examples angle_sums by simp

text \<open>
  C8 as stated fails: the result for \<open>{"5": 100}\<close> is not the single segment of the star-5
  colour from 0 to 360 degrees.
\<close>

theorem getPieStyle_single_segment_counterexample:
  "getPieStyle [str ''5'' \<mapsto> Finite 100]
     \<noteq> [\<lparr>color = str ''#10b981'', startDeg = Finite 0, endDeg = Finite 360\<rparr>]"
  unfolding getPieStyle_segments by simp

end
